theory Spec2Isabelle
  imports Main
begin

section \<open>Python values: strings, exceptions\<close>

text \<open>
  A Python \<open>str\<close> is modelled as a \<open>string\<close>: a list of characters, each read as a code
  point below 256. An exception is a value of type \<open>error\<close>; a function that may raise
  returns \<open>error + 'a\<close>, with \<open>Inl\<close> for the exception.
\<close>

datatype error =
  ValueError | IndexError | TypeError | OSError | RequestException | HTTPError | TyperExit

text \<open>\<open>s.split(sep)\<close> for a separator of one character: never the empty list.\<close>

fun split_on :: "char \<Rightarrow> string \<Rightarrow> string list" where
  "split_on c [] = [[]]"
| "split_on c (x # xs) =
     (if x = c then [] # split_on c xs
      else (case split_on c xs of [] \<Rightarrow> [[x]] | y # ys \<Rightarrow> (x # y) # ys))"

text \<open>\<open>sep.join(parts)\<close>.\<close>

fun join_with :: "string \<Rightarrow> string list \<Rightarrow> string" where
  "join_with sep [] = []"
| "join_with sep [x] = x"
| "join_with sep (x # y # ys) = x @ sep @ join_with sep (y # ys)"

text \<open>
  \<open>s.split(c, 1)\<close> where \<open>c\<close> occurs in \<open>s\<close>: the text before the first \<open>c\<close> and the
  text after it. \<open>s.find(c)\<close> is the length of \<open>before c s\<close>.
\<close>

definition before :: "char \<Rightarrow> string \<Rightarrow> string" where
  "before c s = takeWhile (\<lambda>x. x \<noteq> c) s"

definition after :: "char \<Rightarrow> string \<Rightarrow> string" where
  "after c s = drop 1 (dropWhile (\<lambda>x. x \<noteq> c) s)"

text \<open>\<open>s.lstrip(chars)\<close>, \<open>s.rstrip(chars)\<close> and \<open>s.strip(chars)\<close>, for the set of characters \<open>P\<close>.\<close>

definition lstrip :: "(char \<Rightarrow> bool) \<Rightarrow> string \<Rightarrow> string" where
  "lstrip P s = dropWhile P s"

definition rstrip :: "(char \<Rightarrow> bool) \<Rightarrow> string \<Rightarrow> string" where
  "rstrip P s = rev (dropWhile P (rev s))"

definition strip :: "(char \<Rightarrow> bool) \<Rightarrow> string \<Rightarrow> string" where
  "strip P s = rstrip P (lstrip P s)"

text \<open>
  \<open>c.isspace()\<close> for a code point below 256: the characters that \<open>s.split()\<close> and
  \<open>s.strip()\<close> treat as whitespace.
\<close>

definition isspace :: "char \<Rightarrow> bool" where
  "isspace c = ((of_char c :: nat) \<in> {9, 10, 11, 12, 13, 28, 29, 30, 31, 32, 133, 160})"

text \<open>
  \<open>v.split(maxsplit=1)[0]\<close>: the first whitespace-separated token of \<open>v\<close>. The split of an
  empty or all-whitespace string is the empty list, whose element 0 raises IndexError.
\<close>

definition first_token :: "string \<Rightarrow> error + string" where
  "first_token v =
     (let w = dropWhile isspace v
      in if w = [] then Inl IndexError else Inr (takeWhile (\<lambda>c. \<not> isspace c) w))"

text \<open>A list comprehension \<open>[f(x) for x in xs]\<close> whose \<open>f\<close> may raise: the first exception wins.\<close>

fun map_result :: "('a \<Rightarrow> error + 'b) \<Rightarrow> 'a list \<Rightarrow> error + 'b list" where
  "map_result f [] = Inr []"
| "map_result f (x # xs) =
     (case f x of
        Inl e \<Rightarrow> Inl e
      | Inr y \<Rightarrow> (case map_result f xs of Inl e \<Rightarrow> Inl e | Inr ys \<Rightarrow> Inr (y # ys)))"

section \<open>The standard library's urllib.parse (CPython 3.11)\<close>

definition uses_relative :: "string list" where
  "uses_relative = ['''', ''ftp'', ''http'', ''gopher'', ''nntp'', ''imap'',
     ''wais'', ''file'', ''https'', ''shttp'', ''mms'',
     ''prospero'', ''rtsp'', ''rtsps'', ''rtspu'', ''sftp'',
     ''svn'', ''svn+ssh'', ''ws'', ''wss'']"

definition uses_netloc :: "string list" where
  "uses_netloc = ['''', ''ftp'', ''http'', ''gopher'', ''nntp'', ''telnet'',
     ''imap'', ''wais'', ''file'', ''mms'', ''https'', ''shttp'',
     ''snews'', ''prospero'', ''rtsp'', ''rtsps'', ''rtspu'', ''rsync'',
     ''svn'', ''svn+ssh'', ''sftp'', ''nfs'', ''git'', ''git+ssh'',
     ''ws'', ''wss'']"

definition uses_params :: "string list" where
  "uses_params = ['''', ''ftp'', ''hdl'', ''prospero'', ''http'', ''imap'',
     ''https'', ''shttp'', ''rtsp'', ''rtsps'', ''rtspu'', ''sip'',
     ''sips'', ''mms'', ''sftp'', ''tel'']"

definition ascii_letters_lower :: string where
  "ascii_letters_lower = ''abcdefghijklmnopqrstuvwxyz''"

definition ascii_letters_upper :: string where
  "ascii_letters_upper = ''ABCDEFGHIJKLMNOPQRSTUVWXYZ''"

definition scheme_chars :: string where
  "scheme_chars = ascii_letters_lower @ ascii_letters_upper @ ''0123456789+-.''"

text \<open>\<open>c.isascii() and c.isalpha()\<close>.\<close>

definition ascii_isalpha :: "char \<Rightarrow> bool" where
  "ascii_isalpha c = (c \<in> set (ascii_letters_lower @ ascii_letters_upper))"

text \<open>
  \<open>s.lower()\<close>, character by character. It is applied to a scheme only, which holds
  characters of \<open>scheme_chars\<close>: only the ASCII letters change.
\<close>

definition lower_char :: "char \<Rightarrow> char" where
  "lower_char c =
     (case map_of (zip ascii_letters_upper ascii_letters_lower) c of
        Some l \<Rightarrow> l
      | None \<Rightarrow> c)"

text \<open>\<open>_WHATWG_C0_CONTROL_OR_SPACE\<close> and \<open>_UNSAFE_URL_BYTES_TO_REMOVE\<close> (tab, CR, LF).\<close>

definition c0_control_or_space :: "char \<Rightarrow> bool" where
  "c0_control_or_space c = ((of_char c :: nat) \<le> 32)"

definition unsafe_url_byte :: "char \<Rightarrow> bool" where
  "unsafe_url_byte c = ((of_char c :: nat) \<in> {9, 13, 10})"

definition remove_unsafe :: "string \<Rightarrow> string" where
  "remove_unsafe s = filter (\<lambda>c. \<not> unsafe_url_byte c) s"

text \<open>
  The test that guards the scheme in \<open>urlsplit\<close>: a colon at an index \<open>i > 0\<close>, a first
  character that is an ASCII letter, and \<open>url[:i]\<close> made of scheme characters.
\<close>

definition has_scheme :: "string \<Rightarrow> bool" where
  "has_scheme url =
     (CHR '':'' \<in> set url \<and> before CHR '':'' url \<noteq> [] \<and> ascii_isalpha (hd url) \<and>
      list_all (\<lambda>c. c \<in> set scheme_chars) (before CHR '':'' url))"

text \<open>\<open>_splitnetloc(url, 2)\<close>: the netloc ends at the first of \<open>/\<close>, \<open>?\<close>, \<open>#\<close> from index 2.\<close>

definition netloc_delim :: "char \<Rightarrow> bool" where
  "netloc_delim c = (c \<in> set ''/?#'')"

definition splitnetloc :: "string \<Rightarrow> string \<times> string" where
  "splitnetloc url =
     (takeWhile (\<lambda>c. \<not> netloc_delim c) (drop 2 url),
      dropWhile (\<lambda>c. \<not> netloc_delim c) (drop 2 url))"

text \<open>\<open>netloc.partition('[')[2].partition(']')[0]\<close>.\<close>

definition bracketed_host :: "string \<Rightarrow> string" where
  "bracketed_host nl = before CHR '']'' (after CHR ''['' nl)"

text \<open>The end of \<open>urlsplit\<close>: the fragment is cut off first, then the query.\<close>

definition split_query_fragment :: "string \<Rightarrow> string \<times> string \<times> string" where
  "split_query_fragment url =
     (let (url1, frag) =
            (if CHR ''#'' \<in> set url then (before CHR ''#'' url, after CHR ''#'' url)
             else (url, []));
          (url2, qry) =
            (if CHR ''?'' \<in> set url1 then (before CHR ''?'' url1, after CHR ''?'' url1)
             else (url1, []))
      in (url2, qry, frag))"

text \<open>
  \<open>urlsplit(url, scheme)\<close>, returning (scheme, netloc, path, query, fragment) or raising
  ValueError. The parameter \<open>host_ok\<close> stands for \<open>_check_bracketed_host\<close>, which
  validates the text between brackets with the \<open>ipaddress\<close> module and returns or
  raises; it is called only on a netloc that holds both brackets. \<open>_checknetloc\<close> raises
  only when the NFKC normal form of the netloc brings in one of the characters /?#@: and
  no code point below 256 does that, so it is the identity on the strings of this model.
\<close>

definition urlsplit :: "(string \<Rightarrow> bool) \<Rightarrow> string \<Rightarrow> string \<Rightarrow> error + (string \<times> string \<times> string \<times> string \<times> string)" where
  "urlsplit host_ok url0 scheme0 =
     (let url1 = remove_unsafe (lstrip c0_control_or_space url0);
          scheme1 = remove_unsafe (strip c0_control_or_space scheme0);
          (sch, url2) =
            (if has_scheme url1
             then (map lower_char (before CHR '':'' url1), after CHR '':'' url1)
             else (scheme1, url1))
      in if take 2 url2 = ''//'' then
           (let (nl, rest) = splitnetloc url2
            in if (CHR ''['' \<in> set nl \<and> CHR '']'' \<notin> set nl) \<or>
                  (CHR '']'' \<in> set nl \<and> CHR ''['' \<notin> set nl)
               then Inl ValueError
               else if CHR ''['' \<in> set nl \<and> CHR '']'' \<in> set nl \<and> \<not> host_ok (bracketed_host nl)
               then Inl ValueError
               else (let (p, q, f) = split_query_fragment rest in Inr (sch, nl, p, q, f)))
         else (let (p, q, f) = split_query_fragment url2 in Inr (sch, [], p, q, f)))"

text \<open>
  \<open>_splitparams(url)\<close>, called when \<open>url\<close> holds a semicolon: the parameters start at the
  first semicolon at or after the last slash.
\<close>

definition splitparams :: "string \<Rightarrow> string \<times> string" where
  "splitparams url =
     (if CHR ''/'' \<in> set url then
        (let tail = rev (takeWhile (\<lambda>c. c \<noteq> CHR ''/'') (rev url));
             front = take (length url - length tail) url
         in if CHR '';'' \<in> set tail
            then (front @ before CHR '';'' tail, after CHR '';'' tail)
            else (url, []))
      else (before CHR '';'' url, after CHR '';'' url))"

record parse_result =
  scheme :: string
  netloc :: string
  path :: string
  params :: string
  query :: string
  fragment :: string

definition urlparse_scheme :: "(string \<Rightarrow> bool) \<Rightarrow> string \<Rightarrow> string \<Rightarrow> error + parse_result" where
  "urlparse_scheme host_ok url scheme0 =
     (case urlsplit host_ok url scheme0 of
        Inl e \<Rightarrow> Inl e
      | Inr (sch, nl, p, q, f) \<Rightarrow>
          (let (p1, prm) =
                 (if sch \<in> set uses_params \<and> CHR '';'' \<in> set p then splitparams p else (p, []))
           in Inr \<lparr>scheme = sch, netloc = nl, path = p1, params = prm, query = q, fragment = f\<rparr>))"

text \<open>\<open>urlparse(url)\<close>, with the default scheme \<open>''\<close>.\<close>

definition urlparse :: "(string \<Rightarrow> bool) \<Rightarrow> string \<Rightarrow> error + parse_result" where
  "urlparse host_ok url = urlparse_scheme host_ok url []"

definition urlunsplit :: "string \<Rightarrow> string \<Rightarrow> string \<Rightarrow> string \<Rightarrow> string \<Rightarrow> string" where
  "urlunsplit sch nl url q f =
     (let url1 =
            (if nl \<noteq> [] \<or> (sch \<noteq> [] \<and> sch \<in> set uses_netloc) \<or> take 2 url = ''//''
             then ''//'' @ nl @ (if url \<noteq> [] \<and> take 1 url \<noteq> ''/'' then ''/'' @ url else url)
             else url);
          url2 = (if sch \<noteq> [] then sch @ '':'' @ url1 else url1);
          url3 = (if q \<noteq> [] then url2 @ ''?'' @ q else url2)
      in if f \<noteq> [] then url3 @ ''#'' @ f else url3)"

definition urlunparse :: "parse_result \<Rightarrow> string" where
  "urlunparse r =
     urlunsplit (scheme r) (netloc r)
       (if params r \<noteq> [] then path r @ '';'' @ params r else path r)
       (query r) (fragment r)"

text \<open>
  \<open>urljoin(base, url)\<close>. The loop over the segments pops the last resolved segment at
  \<open>..\<close> (an IndexError on the empty list is caught and ignored there: \<open>butlast []\<close> is
  \<open>[]\<close>), skips \<open>.\<close>, and appends any other segment.
\<close>

fun resolve_segments :: "string list \<Rightarrow> string list \<Rightarrow> string list" where
  "resolve_segments resolved_path [] = resolved_path"
| "resolve_segments resolved_path (seg # segs) =
     (if seg = ''..'' then resolve_segments (butlast resolved_path) segs
      else if seg = ''.'' then resolve_segments resolved_path segs
      else resolve_segments (resolved_path @ [seg]) segs)"

text \<open>\<open>segments[1:-1] = filter(None, segments[1:-1])\<close>.\<close>

definition filter_inner_segments :: "string list \<Rightarrow> string list" where
  "filter_inner_segments segments =
     (case segments of
        [] \<Rightarrow> []
      | x # rest \<Rightarrow>
          (if rest = [] then [x]
           else x # filter (\<lambda>seg. seg \<noteq> []) (butlast rest) @ [last rest]))"

definition urljoin :: "(string \<Rightarrow> bool) \<Rightarrow> string \<Rightarrow> string \<Rightarrow> error + string" where
  "urljoin host_ok base url =
     (if base = [] then Inr url
      else if url = [] then Inr base
      else
        (case urlparse_scheme host_ok base [] of
           Inl e \<Rightarrow> Inl e
         | Inr b \<Rightarrow>
             (case urlparse_scheme host_ok url (scheme b) of
                Inl e \<Rightarrow> Inl e
              | Inr u \<Rightarrow>
                  if scheme u \<noteq> scheme b \<or> scheme u \<notin> set uses_relative then Inr url
                  else if scheme u \<in> set uses_netloc \<and> netloc u \<noteq> [] then Inr (urlunparse u)
                  else
                    (let nl = (if scheme u \<in> set uses_netloc then netloc b else netloc u)
                     in if path u = [] \<and> params u = [] then
                          Inr (urlunparse (u\<lparr>netloc := nl, path := path b, params := params b,
                                 query := (if query u = [] then query b else query u)\<rparr>))
                        else
                          (let base_parts0 = split_on CHR ''/'' (path b);
                               base_parts =
                                 (if last base_parts0 \<noteq> [] then butlast base_parts0
                                  else base_parts0);
                               segments =
                                 (if take 1 (path u) = ''/'' then split_on CHR ''/'' (path u)
                                  else filter_inner_segments
                                         (base_parts @ split_on CHR ''/'' (path u)));
                               resolved0 = resolve_segments [] segments;
                               resolved_path =
                                 (if last segments = ''.'' \<or> last segments = ''..''
                                  then resolved0 @ [[]] else resolved0);
                               joined = join_with ''/'' resolved_path
                           in Inr (urlunparse
                                 (u\<lparr>netloc := nl,
                                    path := (if joined = [] then ''/'' else joined)\<rparr>)))))))"

section \<open>The crawler's predicates on URLs\<close>

definition is_valid :: "(string \<Rightarrow> bool) \<Rightarrow> string \<Rightarrow> error + bool" where
  "is_valid host_ok url =
     (case urlparse host_ok url of
        Inl e \<Rightarrow> Inl e
      | Inr parsed \<Rightarrow> Inr (scheme parsed \<in> set [''http'', ''https'']))"

definition should_download :: "(string \<Rightarrow> bool) \<Rightarrow> string \<Rightarrow> string \<Rightarrow> error + bool" where
  "should_download host_ok url base_domain =
     (case urlparse host_ok url of
        Inl e \<Rightarrow> Inl e
      | Inr parsed \<Rightarrow> Inr (netloc parsed = base_domain))"

text \<open>A validator of bracketed hosts that rejects every one of them.\<close>

definition no_bracketed_host :: "string \<Rightarrow> bool" where
  "no_bracketed_host h = False"

text \<open>
  The scope predicate as the specification words it: the scheme is http or https and the
  host, with the port when present, equals the site domain. The host with its port is the
  netloc without the userinfo, that is, the text after the last \<open>@\<close>.
\<close>

definition host_port :: "string \<Rightarrow> string" where
  "host_port nl = rev (takeWhile (\<lambda>c. c \<noteq> CHR ''@'') (rev nl))"

definition in_scope_spec :: "(string \<Rightarrow> bool) \<Rightarrow> string \<Rightarrow> string \<Rightarrow> error + bool" where
  "in_scope_spec host_ok url site_domain =
     (case urlparse host_ok url of
        Inl e \<Rightarrow> Inl e
      | Inr parsed \<Rightarrow>
          Inr (scheme parsed \<in> set [''http'', ''https''] \<and>
               host_port (netloc parsed) = site_domain))"

section \<open>The libraries the crawler calls\<close>

text \<open>
  BeautifulSoup's parse of a document is taken as the list of its tags in document order:
  \<open>soup.find_all(tag)\<close> is the sublist of the tags with that name, in that order, and every
  one of them is a \<open>Tag\<close>. A tag has a name and a dictionary of attributes, kept in the
  order of the source text. The attributes the crawler reads (href, src, srcset) are not
  multi-valued in BeautifulSoup, so \<open>element.get(attr)\<close> is a \<open>str\<close> or None.
\<close>

record element =
  el_name :: string
  el_attrs :: "(string \<times> string) list"

definition find_all :: "element list \<Rightarrow> string \<Rightarrow> element list" where
  "find_all soup tag = filter (\<lambda>e. el_name e = tag) soup"

definition get_attr :: "element \<Rightarrow> string \<Rightarrow> string option" where
  "get_attr e attr = map_of (el_attrs e) attr"

text \<open>
  The library functions that are not modelled: the validation of a bracketed host in
  urllib.parse, BeautifulSoup's html.parser (it may raise), and the regular expression
  of \<open>extract_css_links\<close>, \<open>re.findall\<close> of \<open>url\(\s*['"]?(.*?)['"]?\s*\)\<close>.
\<close>

record pylib =
  host_ok :: "string \<Rightarrow> bool"
  html_parser :: "string \<Rightarrow> error + element list"
  css_url_findall :: "string \<Rightarrow> string list"

text \<open>posixpath's \<open>os.path.join(a, *p)\<close>.\<close>

fun os_path_join :: "string \<Rightarrow> string list \<Rightarrow> string" where
  "os_path_join a [] = a"
| "os_path_join a (b # p) =
     os_path_join
       (if take 1 b = ''/'' then b
        else if a = [] \<or> last a = CHR ''/'' then a @ b
        else a @ ''/'' @ b) p"

text \<open>
  A response of \<open>requests\<close>: the final URL after redirects, the status code, the
  Content-Type header when there is one, the body as bytes and as text.
\<close>

record response =
  resp_url :: string
  resp_status_code :: int
  resp_content_type :: "string option"
  resp_content :: string
  resp_text :: string

text \<open>
  The world outside the program, of type \<open>'w\<close>: the network and the file system. Each
  operation returns its result, or the exception it raised, and the world after it.
\<close>

record 'w env =
  http_get :: "'w \<Rightarrow> string \<Rightarrow> (error + response) \<times> 'w"
  makedirs :: "'w \<Rightarrow> string \<Rightarrow> error option \<times> 'w"
  write_file :: "'w \<Rightarrow> string \<Rightarrow> string \<Rightarrow> error option \<times> 'w"

section \<open>The Resource Writer\<close>

text \<open>
  The path computation of \<open>save_resource\<close> (lines 31 to 42, without \<open>os.makedirs\<close>): the
  directory and the file path.
\<close>

definition resource_path :: "(string \<Rightarrow> bool) \<Rightarrow> string \<Rightarrow> string \<Rightarrow> string \<Rightarrow> error + (string \<times> string)" where
  "resource_path hok output_dir domain url =
     (case urlparse hok url of
        Inl e \<Rightarrow> Inl e
      | Inr parsed \<Rightarrow>
          (let p0 = path parsed;
               p1 = (if p0 = [] \<or> last p0 = CHR ''/'' then p0 @ ''index.html'' else p0);
               path_parts = split_on CHR ''/'' (strip (\<lambda>c. c = CHR ''/'') p1);
               dir_structure = os_path_join output_dir (domain # butlast path_parts);
               filename = (if path_parts \<noteq> [] then last path_parts else ''index.html'');
               file_path = os_path_join dir_structure [filename]
           in Inr (dir_structure, file_path)))"

definition save_resource :: "(string \<Rightarrow> bool) \<Rightarrow> 'w env \<Rightarrow> 'w \<Rightarrow> response \<Rightarrow> string \<Rightarrow> string \<Rightarrow> string \<Rightarrow> (error + string) \<times> 'w" where
  "save_resource hok env w resp output_dir domain url =
     (case resource_path hok output_dir domain url of
        Inl e \<Rightarrow> (Inl e, w)
      | Inr (dir_structure, file_path) \<Rightarrow>
          (case makedirs env w dir_structure of
             (Some e, w1) \<Rightarrow> (Inl e, w1)
           | (None, w1) \<Rightarrow>
               (case write_file env w1 file_path (resp_content resp) of
                  (Some e, w2) \<Rightarrow> (Inl e, w2)
                | (None, w2) \<Rightarrow> (Inr file_path, w2))))"

section \<open>The Link Extractor\<close>

datatype tag_attrs = Single string | Multiple "string list"

definition tags :: "(string \<times> tag_attrs) list" where
  "tags = [(''a'', Single ''href''), (''link'', Single ''href''),
           (''img'', Multiple [''src'', ''srcset'']), (''script'', Single ''src''),
           (''source'', Multiple [''src'', ''srcset''])]"

definition flat_map_result :: "('a \<Rightarrow> error + 'b list) \<Rightarrow> 'a list \<Rightarrow> error + 'b list" where
  "flat_map_result f xs =
     (case map_result f xs of Inl e \<Rightarrow> Inl e | Inr yss \<Rightarrow> Inr (concat yss))"

text \<open>
  Line 65 to 67, for one attribute of a tag whose entry in \<open>tags\<close> is a list: a value
  that is missing or empty adds nothing; any other value is split at the commas and the
  first token of each piece is a link.
\<close>

definition candidate_links :: "element \<Rightarrow> string \<Rightarrow> error + string list" where
  "candidate_links e attr =
     (case get_attr e attr of
        None \<Rightarrow> Inr []
      | Some v \<Rightarrow> if v = [] then Inr [] else map_result first_token (split_on CHR '','' v))"

text \<open>Lines 63 to 69: the links of one element, for the attributes of its tag.\<close>

fun element_links :: "tag_attrs \<Rightarrow> element \<Rightarrow> error + string list" where
  "element_links (Multiple as) e = flat_map_result (candidate_links e) as"
| "element_links (Single a) e =
     (case get_attr e a of
        None \<Rightarrow> Inr []
      | Some v \<Rightarrow> if v = [] then Inr [] else Inr [v])"

text \<open>Lines 61 to 69: the loop over \<open>tags\<close>, in the order of the dictionary.\<close>

definition raw_links :: "element list \<Rightarrow> error + string list" where
  "raw_links soup =
     flat_map_result (\<lambda>(tag, as). flat_map_result (element_links as) (find_all soup tag)) tags"

definition extract_html_links :: "pylib \<Rightarrow> string \<Rightarrow> string \<Rightarrow> error + string list" where
  "extract_html_links lib cont base_url =
     (case html_parser lib cont of
        Inl e \<Rightarrow> Inl e
      | Inr soup \<Rightarrow>
          (case raw_links soup of
             Inl e \<Rightarrow> Inl e
           | Inr links \<Rightarrow> map_result (urljoin (host_ok lib) base_url) links))"

definition extract_css_links :: "pylib \<Rightarrow> string \<Rightarrow> string \<Rightarrow> error + string list" where
  "extract_css_links lib cont base_url =
     map_result (urljoin (host_ok lib) base_url) (css_url_findall lib cont)"

section \<open>The Crawl Engine\<close>

text \<open>
  Lines 161 to 175: the declared content type without its parameters, and the links of
  the page; an exception of either extractor leaves the list empty.
\<close>

definition content_type_of :: "response \<Rightarrow> string" where
  "content_type_of resp =
     strip isspace
       (before CHR '';'' (case resp_content_type resp of None \<Rightarrow> [] | Some h \<Rightarrow> h))"

definition page_links :: "pylib \<Rightarrow> response \<Rightarrow> string \<Rightarrow> string list" where
  "page_links lib resp final_url =
     (if content_type_of resp = ''text/html'' then
        (case extract_html_links lib (resp_content resp) final_url of
           Inl e \<Rightarrow> []
         | Inr links \<Rightarrow> links)
      else if content_type_of resp = ''text/css'' then
        (case extract_css_links lib (resp_text resp) final_url of
           Inl e \<Rightarrow> []
         | Inr links \<Rightarrow> links)
      else [])"

text \<open>Line 178 to 180: the link without its query and fragment.\<close>

definition clean_url_of :: "(string \<Rightarrow> bool) \<Rightarrow> string \<Rightarrow> error + string" where
  "clean_url_of hok link =
     (case urlparse hok link of
        Inl e \<Rightarrow> Inl e
      | Inr parsed \<Rightarrow> Inr (urlunparse (parsed\<lparr>query := [], fragment := []\<rparr>)))"

text \<open>
  Lines 177 to 184: the loop over the links. It returns the queue as the loop left it
  and the exception that ended the loop, if one did.
\<close>

fun enqueue_links :: "(string \<Rightarrow> bool) \<Rightarrow> string \<Rightarrow> string set \<Rightarrow> int \<Rightarrow> (string \<times> int) list \<Rightarrow> string list \<Rightarrow> error option \<times> (string \<times> int) list" where
  "enqueue_links hok base_domain vis depth q [] = (None, q)"
| "enqueue_links hok base_domain vis depth q (link # links) =
     (case clean_url_of hok link of
        Inl e \<Rightarrow> (Some e, q)
      | Inr clean_url \<Rightarrow>
          (case is_valid hok clean_url of
             Inl e \<Rightarrow> (Some e, q)
           | Inr False \<Rightarrow> enqueue_links hok base_domain vis depth q links
           | Inr True \<Rightarrow>
               (case should_download hok clean_url base_domain of
                  Inl e \<Rightarrow> (Some e, q)
                | Inr False \<Rightarrow> enqueue_links hok base_domain vis depth q links
                | Inr True \<Rightarrow>
                    if clean_url \<notin> vis
                    then enqueue_links hok base_domain vis depth (q @ [(clean_url, depth + 1)]) links
                    else enqueue_links hok base_domain vis depth q links)))"

text \<open>
  The Fetch Client's call log: the initial request of line 112 and the requests of the
  frontier loop (line 141), each with the depth of its frontier entry.
\<close>

datatype request = Initial string | Frontier string int

fun request_url :: "request \<Rightarrow> string" where
  "request_url (Initial u) = u"
| "request_url (Frontier u d) = u"

text \<open>
  The state of one run: the world, the frontier queue (first in, first out), the
  visited set, the call log (oldest first) and the resources saved so far (final URL and
  file path, oldest first).
\<close>

record 'w crawl_state =
  world :: 'w
  queue :: "(string \<times> int) list"
  visited :: "string set"
  call_log :: "request list"
  saved :: "(string \<times> string) list"

text \<open>
  One iteration of the loop either goes on to the next one or raises an exception that
  no handler inside the loop catches.
\<close>

datatype 'w step_result = Next "'w crawl_state" | Raise error "'w crawl_state"

text \<open>Lines 149 to 184: from the final URL of a response to the enqueued links.\<close>

definition handle_response :: "pylib \<Rightarrow> 'w env \<Rightarrow> string \<Rightarrow> string \<Rightarrow> int \<Rightarrow> response \<Rightarrow> 'w crawl_state \<Rightarrow> 'w step_result" where
  "handle_response lib env output_dir base_domain depth resp st =
     (let final_url = resp_url resp
      in case should_download (host_ok lib) final_url base_domain of
           Inl e \<Rightarrow> Raise e st
         | Inr False \<Rightarrow> Next st
         | Inr True \<Rightarrow>
             (case save_resource (host_ok lib) env (world st) resp output_dir base_domain final_url of
                (Inl e, w) \<Rightarrow> Raise e (st\<lparr>world := w\<rparr>)
              | (Inr saved_path, w) \<Rightarrow>
                  (let st1 = st\<lparr>world := w, saved := saved st @ [(final_url, saved_path)]\<rparr>;
                       links = page_links lib resp final_url
                   in case enqueue_links (host_ok lib) base_domain (visited st1) depth
                             (queue st1) links of
                        (Some e, q) \<Rightarrow> Raise e (st1\<lparr>queue := q\<rparr>)
                      | (None, q) \<Rightarrow> Next (st1\<lparr>queue := q\<rparr>))))"

text \<open>
  Lines 126 to 184: one iteration, for a queue that is not empty. \<open>raise_for_status\<close>
  raises for a status from 400 to 599.
\<close>

definition crawl_step :: "pylib \<Rightarrow> 'w env \<Rightarrow> string \<Rightarrow> int option \<Rightarrow> string \<Rightarrow> 'w crawl_state \<Rightarrow> 'w step_result" where
  "crawl_step lib env output_dir max_depth base_domain st =
     (case queue st of
        [] \<Rightarrow> Next st
      | (u, depth) # rest \<Rightarrow>
          (let st1 = st\<lparr>queue := rest\<rparr>
           in if (case max_depth of None \<Rightarrow> False | Some d \<Rightarrow> depth > d) then Next st1
              else if u \<in> visited st1 then Next st1
              else
                (let st2 = st1\<lparr>visited := insert u (visited st1)\<rparr>
                 in case http_get env (world st2) u of
                      (Inl e, w) \<Rightarrow>
                        Next (st2\<lparr>world := w, call_log := call_log st2 @ [Frontier u depth]\<rparr>)
                    | (Inr resp, w) \<Rightarrow>
                        (let st3 = st2\<lparr>world := w,
                                      call_log := call_log st2 @ [Frontier u depth]\<rparr>
                         in if 400 \<le> resp_status_code resp \<and> resp_status_code resp < 600
                            then Next st3
                            else handle_response lib env output_dir base_domain depth resp st3))))"

text \<open>
  How a run ends: the frontier is empty (\<open>Completed\<close>); an exception reached the handler
  of line 186, which exits with code 1 (\<open>Critical\<close>); or the bound on the number of
  iterations that the model adds was reached with the frontier not empty (\<open>Running\<close>).
\<close>

datatype 'w outcome =
  Completed "'w crawl_state" | Critical error "'w crawl_state" | Running "'w crawl_state"

fun final_state :: "'w outcome \<Rightarrow> 'w crawl_state" where
  "final_state (Completed st) = st"
| "final_state (Critical e st) = st"
| "final_state (Running st) = st"

text \<open>Lines 125 to 184: the loop, for at most \<open>n\<close> iterations.\<close>

fun crawl_loop :: "nat \<Rightarrow> pylib \<Rightarrow> 'w env \<Rightarrow> string \<Rightarrow> int option \<Rightarrow> string \<Rightarrow> 'w crawl_state \<Rightarrow> 'w outcome" where
  "crawl_loop 0 lib env output_dir max_depth base_domain st =
     (if queue st = [] then Completed st else Running st)"
| "crawl_loop (Suc n) lib env output_dir max_depth base_domain st =
     (if queue st = [] then Completed st
      else
        (case crawl_step lib env output_dir max_depth base_domain st of
           Next st' \<Rightarrow> crawl_loop n lib env output_dir max_depth base_domain st'
         | Raise e st' \<Rightarrow> Critical e st'))"

text \<open>
  Lines 101 to 188: \<open>crawl\<close>, without the console output. A status other than 200 of the
  initial response raises \<open>typer.Exit\<close>, an exception that the handler of line 186
  catches like any other.
\<close>

definition initial_state :: "'w \<Rightarrow> 'w crawl_state" where
  "initial_state w = \<lparr>world = w, queue = [], visited = {}, call_log = [], saved = []\<rparr>"

definition crawl :: "nat \<Rightarrow> pylib \<Rightarrow> 'w env \<Rightarrow> 'w \<Rightarrow> string \<Rightarrow> string \<Rightarrow> int option \<Rightarrow> 'w outcome" where
  "crawl n lib env w0 start_url output_dir max_depth0 =
     (case makedirs env w0 output_dir of
        (Some e, w1) \<Rightarrow> Critical e (initial_state w1)
      | (None, w1) \<Rightarrow>
          (let max_depth =
                 (case max_depth0 of
                    None \<Rightarrow> None
                  | Some d \<Rightarrow> if d < 0 then None else Some d)
           in case http_get env w1 start_url of
                (Inl e, w2) \<Rightarrow>
                  Critical e ((initial_state w2)\<lparr>call_log := [Initial start_url]\<rparr>)
              | (Inr resp, w2) \<Rightarrow>
                  (let st0 = (initial_state w2)\<lparr>call_log := [Initial start_url]\<rparr>
                   in if resp_status_code resp \<noteq> 200 then Critical TyperExit st0
                      else
                        (let base_url = resp_url resp
                         in case urlparse (host_ok lib) base_url of
                              Inl e \<Rightarrow> Critical e st0
                            | Inr parsed \<Rightarrow>
                                crawl_loop n lib env output_dir max_depth (netloc parsed)
                                  (st0\<lparr>queue := [(base_url, 0)]\<rparr>)))))"

section \<open>Definitions that the theorems compare the code with\<close>

text \<open>
  The links of a document in the order the specification asks for: element by element in
  document order, each element giving the links of the attributes of its tag.
\<close>

definition document_order_links :: "element list \<Rightarrow> error + string list" where
  "document_order_links soup =
     flat_map_result
       (\<lambda>e. case map_of tags (el_name e) of None \<Rightarrow> Inr [] | Some as \<Rightarrow> element_links as e)
       soup"

text \<open>The tags of a document grouped by name, in the order of \<open>tags\<close>, each group in document order.\<close>

definition regroup_by_tag :: "element list \<Rightarrow> element list" where
  "regroup_by_tag soup = concat (map (\<lambda>(tag, as). find_all soup tag) tags)"


definition links_in_document_order :: "(string \<Rightarrow> bool) \<Rightarrow> element list \<Rightarrow> string \<Rightarrow> error + string list" where
  "links_in_document_order hok soup base_url =
     (case document_order_links soup of
        Inl e \<Rightarrow> Inl e
      | Inr links \<Rightarrow> map_result (urljoin hok base_url) links)"

definition extract_in_document_order :: "pylib \<Rightarrow> string \<Rightarrow> string \<Rightarrow> error + string list" where
  "extract_in_document_order lib cont base_url =
     (case html_parser lib cont of
        Inl e \<Rightarrow> Inl e
      | Inr soup \<Rightarrow> links_in_document_order (host_ok lib) soup base_url)"

text \<open>A library for the examples: its HTML parser returns the given tags for every document.\<close>

definition example_lib :: "element list \<Rightarrow> pylib" where
  "example_lib soup =
     \<lparr>host_ok = no_bracketed_host, html_parser = (\<lambda>c. Inr soup), css_url_findall = (\<lambda>c. [])\<rparr>"

text \<open>A scheme as \<open>urlsplit\<close> accepts one: not empty, a letter first, scheme characters only.\<close>

definition good_scheme :: "string \<Rightarrow> bool" where
  "good_scheme s = (s \<noteq> [] \<and> ascii_isalpha (hd s) \<and> list_all (\<lambda>c. c \<in> set scheme_chars) s)"

text \<open>A netloc that passes the checks of \<open>urlsplit\<close>.\<close>

definition netloc_accepted :: "(string \<Rightarrow> bool) \<Rightarrow> string \<Rightarrow> bool" where
  "netloc_accepted hok nl =
     (\<not> ((CHR ''['' \<in> set nl \<and> CHR '']'' \<notin> set nl) \<or> (CHR '']'' \<in> set nl \<and> CHR ''['' \<notin> set nl)) \<and>
      \<not> (CHR ''['' \<in> set nl \<and> CHR '']'' \<in> set nl \<and> \<not> hok (bracketed_host nl)))"

text \<open>The URL as \<open>urlsplit\<close> reads it: leading C0 controls and spaces stripped, unsafe bytes removed.\<close>

definition url_stripped :: "string \<Rightarrow> string" where
  "url_stripped url0 = remove_unsafe (lstrip c0_control_or_space url0)"

text \<open>A string without tab, CR and LF.\<close>

definition safe :: "string \<Rightarrow> bool" where
  "safe s = (\<forall>c\<in>set s. \<not> unsafe_url_byte c)"

text \<open>
  A world for the examples: a site that answers each URL with a fixed response or a
  connection error, and a file system where the given paths cannot be written.
\<close>

definition static_site :: "(string \<Rightarrow> response option) \<Rightarrow> (string \<Rightarrow> bool) \<Rightarrow> unit env" where
  "static_site pages unwritable =
     \<lparr>http_get = (\<lambda>w u. (case pages u of None \<Rightarrow> Inl RequestException | Some r \<Rightarrow> Inr r, w)),
      makedirs = (\<lambda>w d. (None, w)),
      write_file = (\<lambda>w p c. (if unwritable p then Some OSError else None, w))\<rparr>"

definition image_at :: "string \<Rightarrow> response" where
  "image_at u =
     \<lparr>resp_url = u, resp_status_code = 200, resp_content_type = Some ''image/png'',
      resp_content = ''png'', resp_text = ''png''\<rparr>"

definition one_image_site :: "string \<Rightarrow> unit env" where
  "one_image_site u = static_site (\<lambda>v. if v = u then Some (image_at u) else None) (\<lambda>p. False)"

text \<open>The state after an iteration, however it ended.\<close>

fun step_state :: "'w step_result \<Rightarrow> 'w crawl_state" where
  "step_state (Next st) = st"
| "step_state (Raise e st) = st"

text \<open>The requests of the frontier loop in a call log, with their depths.\<close>

fun frontier_requests :: "request list \<Rightarrow> (string \<times> int) list" where
  "frontier_requests [] = []"
| "frontier_requests (Initial u # rs) = frontier_requests rs"
| "frontier_requests (Frontier u d # rs) = (u, d) # frontier_requests rs"

text \<open>
  A site of three HTML pages, the index and the pages \<open>/a\<close> and \<open>/b\<close>, each linking to
  \<open>/a\<close> and to \<open>/b\<close>; the files at the given paths cannot be written.
\<close>

definition html_at :: "string \<Rightarrow> response" where
  "html_at u =
     \<lparr>resp_url = u, resp_status_code = 200, resp_content_type = Some ''text/html; charset=utf-8'',
      resp_content = ''page'', resp_text = ''page''\<rparr>"

definition two_links :: "element list" where
  "two_links = [\<lparr>el_name = ''a'', el_attrs = [(''href'', ''/a'')]\<rparr>,
                \<lparr>el_name = ''a'', el_attrs = [(''href'', ''/b'')]\<rparr>]"

definition three_pages :: "string list \<Rightarrow> (string \<Rightarrow> bool) \<Rightarrow> unit env" where
  "three_pages missing unwritable =
     static_site
       (\<lambda>v. if v \<in> set [''https://example.com/'', ''https://example.com/a'', ''https://example.com/b'']
                 \<and> v \<notin> set missing
             then Some (html_at v) else None)
       unwritable"








text \<open>A URL that parses with an empty query and an empty fragment.\<close>

definition no_query_no_fragment :: "(string \<Rightarrow> bool) \<Rightarrow> string \<Rightarrow> bool" where
  "no_query_no_fragment hok u =
     (case urlparse hok u of Inl e \<Rightarrow> False | Inr r \<Rightarrow> query r = [] \<and> fragment r = [])"

text \<open>A frontier entry as the loop keeps it: its depth is not negative, and from depth 1 on its URL has no query and no fragment.\<close>

definition entry_ok :: "(string \<Rightarrow> bool) \<Rightarrow> string \<times> int \<Rightarrow> bool" where
  "entry_ok hok e = (0 \<le> snd e \<and> (1 \<le> snd e \<longrightarrow> no_query_no_fragment hok (fst e)))"




section \<open>Evaluation of the definitions on concrete inputs\<close>

lemmas string_defs =
  before_def after_def lstrip_def rstrip_def strip_def isspace_def first_token_def

lemmas urllib_defs =
  urlparse_def urlparse_scheme_def urlsplit_def remove_unsafe_def c0_control_or_space_def
  unsafe_url_byte_def has_scheme_def ascii_isalpha_def ascii_letters_lower_def
  ascii_letters_upper_def scheme_chars_def lower_char_def splitnetloc_def netloc_delim_def
  bracketed_host_def split_query_fragment_def splitparams_def uses_params_def uses_netloc_def
  uses_relative_def urlunsplit_def urlunparse_def

section \<open>Lists of results\<close>

lemma map_result_Inl_D: "map_result f xs = Inl e \<Longrightarrow> \<exists>x\<in>set xs. f x = Inl e"
  by (induction xs) (auto split: sum.splits)

lemma map_result_Inl_I: "x \<in> set xs \<Longrightarrow> f x = Inl e \<Longrightarrow> \<exists>e'. map_result f xs = Inl e'"
  by (induction xs) (auto split: sum.splits)

lemma map_result_length: "map_result f xs = Inr ys \<Longrightarrow> length ys = length xs"
  by (induction xs arbitrary: ys) (auto split: sum.splits)


lemma map_result_cong: "(\<And>x. x \<in> set xs \<Longrightarrow> f x = g x) \<Longrightarrow> map_result f xs = map_result g xs"
  by (induction xs) (simp_all split: sum.splits)

lemma map_result_append:
  "map_result f (xs @ ys) =
     (case map_result f xs of
        Inl e \<Rightarrow> Inl e
      | Inr a \<Rightarrow> (case map_result f ys of Inl e \<Rightarrow> Inl e | Inr b \<Rightarrow> Inr (a @ b)))"
  by (induction xs) (auto split: sum.splits)

lemma flat_map_result_append:
  "flat_map_result f (xs @ ys) =
     (case flat_map_result f xs of
        Inl e \<Rightarrow> Inl e
      | Inr a \<Rightarrow> (case flat_map_result f ys of Inl e \<Rightarrow> Inl e | Inr b \<Rightarrow> Inr (a @ b)))"
  by (simp add: flat_map_result_def map_result_append split: sum.splits)

lemma flat_map_result_cong:
  "(\<And>x. x \<in> set xs \<Longrightarrow> f x = g x) \<Longrightarrow> flat_map_result f xs = flat_map_result g xs"
  by (simp add: flat_map_result_def map_result_cong [of xs f g])

lemma flat_map_result_Inl_D: "flat_map_result f xs = Inl e \<Longrightarrow> \<exists>x\<in>set xs. f x = Inl e"
  by (auto simp: flat_map_result_def split: sum.splits dest: map_result_Inl_D)

lemma flat_map_result_Inl_I:
  "x \<in> set xs \<Longrightarrow> f x = Inl e \<Longrightarrow> \<exists>e'. flat_map_result f xs = Inl e'"
  using map_result_Inl_I [of x xs f e] by (auto simp: flat_map_result_def)

lemma first_token_error: "first_token v = Inl e \<Longrightarrow> e = IndexError"
  by (auto simp: first_token_def Let_def split: if_splits)

lemma first_token_blank: "list_all isspace v \<Longrightarrow> first_token v = Inl IndexError"
  by (simp add: first_token_def Let_def list_all_iff)


lemma candidate_links_error: "candidate_links e attr = Inl err \<Longrightarrow> err = IndexError"
  by (auto simp: candidate_links_def split: option.splits if_splits
      dest!: map_result_Inl_D first_token_error)

lemma element_links_error: "element_links as e = Inl err \<Longrightarrow> err = IndexError"
  by (cases as) (auto split: option.splits if_splits dest!: flat_map_result_Inl_D candidate_links_error)

lemma raw_links_error: "raw_links soup = Inl err \<Longrightarrow> err = IndexError"
  by (auto simp: raw_links_def dest!: flat_map_result_Inl_D element_links_error)

lemma candidate_links_blank:
  assumes "get_attr e attr = Some v" "v \<noteq> []" "piece \<in> set (split_on CHR '','' v)"
    "list_all isspace piece"
  shows "candidate_links e attr = Inl IndexError"
proof -
  have "first_token piece = Inl IndexError"
    using assms(4) by (rule first_token_blank)
  with assms(3) obtain e' where "map_result first_token (split_on CHR '','' v) = Inl e'"
    using map_result_Inl_I [of piece "split_on CHR '','' v" first_token IndexError] by blast
  then have "candidate_links e attr = Inl e'"
    using assms(1,2) by (simp add: candidate_links_def)
  then show ?thesis using candidate_links_error by blast
qed

lemma raw_links_blank_candidate:
  assumes "e \<in> set soup" "el_name e = ''img'' \<or> el_name e = ''source''"
    "attr = ''src'' \<or> attr = ''srcset''"
    "get_attr e attr = Some v" "v \<noteq> []" "piece \<in> set (split_on CHR '','' v)"
    "list_all isspace piece"
  shows "raw_links soup = Inl IndexError"
proof -
  define as where "as = Multiple [''src'', ''srcset'']"
  define F where "F = (\<lambda>(tag, as). flat_map_result (element_links as) (find_all soup tag))"
  have c: "candidate_links e attr = Inl IndexError"
    using candidate_links_blank [OF assms(4-7)] .
  have "attr \<in> set [''src'', ''srcset'']" using assms(3) by auto
  then obtain e1 where e1: "element_links as e = Inl e1"
    using flat_map_result_Inl_I [of attr "[''src'', ''srcset'']" "candidate_links e" IndexError] c
    by (auto simp: as_def)
  have mem: "e \<in> set (find_all soup (el_name e))"
    using assms(1) by (simp add: find_all_def)
  obtain e2 where e2: "flat_map_result (element_links as) (find_all soup (el_name e)) = Inl e2"
    using flat_map_result_Inl_I [of e "find_all soup (el_name e)" "element_links as" e1] mem e1
    by blast
  have t: "(el_name e, as) \<in> set tags"
    using assms(2) by (auto simp: tags_def as_def)
  have "F (el_name e, as) = Inl e2"
    using e2 by (simp add: F_def)
  with t obtain e3 where "flat_map_result F tags = Inl e3"
    using flat_map_result_Inl_I [of "(el_name e, as)" tags F e2] by blast
  then have "raw_links soup = Inl e3"
    by (simp add: raw_links_def F_def)
  then show ?thesis using raw_links_error by blast
qed

text \<open>
  C9: a page with an img or source element whose src or srcset value is not empty and has
  a comma-separated candidate that is empty or all whitespace (a trailing comma, for one)
  makes \<open>extract_html_links\<close> raise IndexError; the engine catches it and the page
  contributes no link at all, whatever the other candidates were.
\<close>

theorem C9_blank_candidate_discards_page:
  assumes "html_parser lib (resp_content resp) = Inr soup"
    and "content_type_of resp = ''text/html''"
    and "e \<in> set soup" and "el_name e = ''img'' \<or> el_name e = ''source''"
    and "attr = ''src'' \<or> attr = ''srcset''"
    and "get_attr e attr = Some v" and "v \<noteq> []"
    and "piece \<in> set (split_on CHR '','' v)" and "list_all isspace piece"
  shows "extract_html_links lib (resp_content resp) final_url = Inl IndexError \<and>
         page_links lib resp final_url = []"
  using raw_links_blank_candidate [OF assms(3-9)] assms(1,2)
  by (simp add: extract_html_links_def page_links_def)

lemma flat_map_result_concat:
  "flat_map_result f (concat xss) = flat_map_result (flat_map_result f) xss"
proof (induction xss)
  case Nil
  show ?case by (simp add: flat_map_result_def)
next
  case (Cons xs xss)
  have "flat_map_result (flat_map_result f) (xs # xss) =
      (case flat_map_result f xs of
         Inl e \<Rightarrow> Inl e
       | Inr a \<Rightarrow> (case flat_map_result (flat_map_result f) xss of
                    Inl e \<Rightarrow> Inl e | Inr b \<Rightarrow> Inr (a @ b)))"
    by (simp add: flat_map_result_def [of "flat_map_result f"] split: sum.splits)
  then show ?case using Cons by (simp add: flat_map_result_append split: sum.splits)
qed

lemma flat_map_result_map: "flat_map_result f (map h xs) = flat_map_result (\<lambda>x. f (h x)) xs"
proof -
  have "map_result f (map h xs) = map_result (\<lambda>x. f (h x)) xs"
    by (induction xs) (simp_all split: sum.splits)
  then show ?thesis by (simp add: flat_map_result_def)
qed

lemma map_of_tags: "(tag, as) \<in> set tags \<Longrightarrow> map_of tags tag = Some as"
  by (auto simp: tags_def)

lemma raw_links_regroup: "raw_links soup = document_order_links (regroup_by_tag soup)"
proof -
  define G where "G = (\<lambda>e. case map_of tags (el_name e) of
      None \<Rightarrow> Inr [] | Some as \<Rightarrow> element_links as e)"
  have "flat_map_result G (find_all soup tag) =
      flat_map_result (element_links as) (find_all soup tag)"
    if "(tag, as) \<in> set tags" for tag as
    by (rule flat_map_result_cong) (simp add: G_def find_all_def map_of_tags [OF that])
  then have "flat_map_result (\<lambda>x. flat_map_result G (case x of (tag, as) \<Rightarrow> find_all soup tag)) tags =
      flat_map_result (\<lambda>(tag, as). flat_map_result (element_links as) (find_all soup tag)) tags"
    by (intro flat_map_result_cong) auto
  then show ?thesis
    unfolding raw_links_def document_order_links_def regroup_by_tag_def G_def [symmetric]
      flat_map_result_concat flat_map_result_map
    by simp
qed


lemmas extractor_defs =
  extract_html_links_def raw_links_def flat_map_result_def tags_def find_all_def get_attr_def
  candidate_links_def example_lib_def urljoin_def filter_inner_segments_def

section \<open>The order of the extracted links\<close>

text \<open>
  C7, as stated, fails: for a document with an img before an a, the link of the a comes
  first in the result, while document order puts the link of the img first.
\<close>

theorem C7_not_document_order:
  "extract_html_links
     (example_lib [\<lparr>el_name = ''img'', el_attrs = [(''src'', ''x.png'')]\<rparr>,
                   \<lparr>el_name = ''a'', el_attrs = [(''href'', ''y'')]\<rparr>])
     [] ''https://example.com/'' =
     Inr [''https://example.com/y'', ''https://example.com/x.png''] \<and>
   extract_in_document_order
     (example_lib [\<lparr>el_name = ''img'', el_attrs = [(''src'', ''x.png'')]\<rparr>,
                   \<lparr>el_name = ''a'', el_attrs = [(''href'', ''y'')]\<rparr>])
     [] ''https://example.com/'' =
     Inr [''https://example.com/x.png'', ''https://example.com/y'']"
  by (simp add: extractor_defs extract_in_document_order_def links_in_document_order_def
      document_order_links_def urllib_defs string_defs Let_def no_bracketed_host_def)

text \<open>
  C7, amended: the links are ordered by tag name first, in the fixed order a, link, img,
  script, source, and by document order within one tag name: the result is the
  document-order extraction of the tags regrouped by name.
\<close>

theorem C7_order_by_tag_then_document:
  "extract_html_links lib cont base_url =
     (case html_parser lib cont of
        Inl e \<Rightarrow> Inl e
      | Inr soup \<Rightarrow> links_in_document_order (host_ok lib) (regroup_by_tag soup) base_url)"
  by (simp add: extract_html_links_def links_in_document_order_def raw_links_regroup
      split: sum.splits)

theorem C7_order_by_tag_then_document_witness:
  "extract_html_links
     (example_lib [\<lparr>el_name = ''img'', el_attrs = [(''src'', ''x.png'')]\<rparr>,
                   \<lparr>el_name = ''a'', el_attrs = [(''href'', ''y'')]\<rparr>])
     [] ''https://example.com/'' =
   links_in_document_order no_bracketed_host
     [\<lparr>el_name = ''a'', el_attrs = [(''href'', ''y'')]\<rparr>,
      \<lparr>el_name = ''img'', el_attrs = [(''src'', ''x.png'')]\<rparr>]
     ''https://example.com/''"
  using C7_order_by_tag_then_document
    [of "example_lib [\<lparr>el_name = ''img'', el_attrs = [(''src'', ''x.png'')]\<rparr>,
                   \<lparr>el_name = ''a'', el_attrs = [(''href'', ''y'')]\<rparr>]" "[]" "''https://example.com/''"]
  by (simp add: example_lib_def regroup_by_tag_def tags_def find_all_def)

section \<open>A page with a blank candidate\<close>

lemma isspace_simps:
  "isspace CHR '' ''" "\<not> isspace CHR ''a''" "\<not> isspace CHR ''b''" "\<not> isspace CHR ''c''"
  "\<not> isspace CHR ''.''" "\<not> isspace CHR ''p''" "\<not> isspace CHR ''n''" "\<not> isspace CHR ''g''"
  "\<not> isspace CHR ''1''" "\<not> isspace CHR ''2''" "\<not> isspace CHR ''3''" "\<not> isspace CHR ''x''"
  by (simp_all add: isspace_def)

theorem C9_blank_candidate_discards_page_witness:
  "extract_html_links
     (example_lib [\<lparr>el_name = ''img'', el_attrs = [(''srcset'', ''a.png 1x,'')]\<rparr>])
     ''page'' ''https://example.com/'' = Inl IndexError \<and>
   page_links
     (example_lib [\<lparr>el_name = ''img'', el_attrs = [(''srcset'', ''a.png 1x,'')]\<rparr>])
     \<lparr>resp_url = ''https://example.com/'', resp_status_code = 200,
      resp_content_type = Some ''text/html; charset=utf-8'',
      resp_content = ''page'', resp_text = ''page''\<rparr>
     ''https://example.com/'' = []"
  using C9_blank_candidate_discards_page
    [of "example_lib [\<lparr>el_name = ''img'', el_attrs = [(''srcset'', ''a.png 1x,'')]\<rparr>]"
        "\<lparr>resp_url = ''https://example.com/'', resp_status_code = 200,
          resp_content_type = Some ''text/html; charset=utf-8'',
          resp_content = ''page'', resp_text = ''page''\<rparr>"
        "[\<lparr>el_name = ''img'', el_attrs = [(''srcset'', ''a.png 1x,'')]\<rparr>]"
        "\<lparr>el_name = ''img'', el_attrs = [(''srcset'', ''a.png 1x,'')]\<rparr>"
        "''srcset''" "''a.png 1x,''" "[]" "''https://example.com/''"]
  by (simp add: example_lib_def get_attr_def content_type_of_def string_defs)

section \<open>What urlsplit and urlparse return\<close>

lemma set_before: "set (before c s) \<subseteq> set s"
  by (auto simp: before_def dest: set_takeWhileD)

lemma set_after: "set (after c s) \<subseteq> set s"
  by (auto simp: after_def dest: set_dropWhileD in_set_dropD)

lemma not_in_before: "c \<notin> set (before c s)"
  by (auto simp: before_def dest: set_takeWhileD)


lemma split_query_fragment_path:
  assumes "split_query_fragment u = (p, q, f)"
  shows "CHR ''?'' \<notin> set p" and "CHR ''#'' \<notin> set p" and "set p \<subseteq> set u"
    and "set q \<subseteq> set u" and "set f \<subseteq> set u"
    and "CHR ''#'' \<notin> set u \<Longrightarrow> f = []" and "CHR ''?'' \<notin> set u \<Longrightarrow> q = []"
proof -
  define u1 where "u1 = (if CHR ''#'' \<in> set u then before CHR ''#'' u else u)"
  have f: "f = (if CHR ''#'' \<in> set u then after CHR ''#'' u else [])"
    and q: "q = (if CHR ''?'' \<in> set u1 then after CHR ''?'' u1 else [])"
    and p: "p = (if CHR ''?'' \<in> set u1 then before CHR ''?'' u1 else u1)"
    using assms by (auto simp: split_query_fragment_def u1_def Let_def split: if_splits)
  have u1: "set u1 \<subseteq> set u" "CHR ''#'' \<notin> set u1"
    using set_before [of "CHR ''#''" u] not_in_before [of "CHR ''#''" u] by (auto simp: u1_def)
  show "CHR ''?'' \<notin> set p"
    using not_in_before [of "CHR ''?''" u1] by (auto simp: p)
  show "CHR ''#'' \<notin> set p" and "set p \<subseteq> set u"
    using u1 set_before [of "CHR ''?''" u1] by (auto simp: p)
  show "set q \<subseteq> set u"
    using u1 set_after [of "CHR ''?''" u1] by (auto simp: q)
  show "set f \<subseteq> set u"
    using set_after [of "CHR ''#''" u] by (auto simp: f)
  show "CHR ''#'' \<notin> set u \<Longrightarrow> f = []" by (simp add: f)
  show "CHR ''?'' \<notin> set u \<Longrightarrow> q = []" using u1 by (auto simp: q)
qed

lemma lower_char_scheme_chars_all:
  "list_all (\<lambda>c. lower_char c \<in> set scheme_chars) scheme_chars"
  by code_simp

lemma lower_char_scheme_chars: "\<forall>c\<in>set scheme_chars. lower_char c \<in> set scheme_chars"
  using lower_char_scheme_chars_all by (simp only: list_all_iff)

lemma lower_char_isalpha_all:
  "list_all (\<lambda>c. ascii_isalpha (lower_char c)) (ascii_letters_lower @ ascii_letters_upper)"
  by code_simp

lemma lower_char_isalpha:
  "\<forall>c\<in>set (ascii_letters_lower @ ascii_letters_upper). ascii_isalpha (lower_char c)"
  using lower_char_isalpha_all by (simp only: list_all_iff)

lemma scheme_chars_not_special_all:
  "list_all (\<lambda>c. c \<noteq> CHR ''?'' \<and> c \<noteq> CHR ''#'' \<and> c \<noteq> CHR '':'' \<and> c \<noteq> CHR ''/'' \<and>
     \<not> unsafe_url_byte c \<and> \<not> c0_control_or_space c) scheme_chars"
  by code_simp

lemma scheme_chars_not_special:
  "c \<in> set scheme_chars \<Longrightarrow>
     c \<noteq> CHR ''?'' \<and> c \<noteq> CHR ''#'' \<and> c \<noteq> CHR '':'' \<and> c \<noteq> CHR ''/'' \<and>
     \<not> unsafe_url_byte c \<and> \<not> c0_control_or_space c"
  using scheme_chars_not_special_all unfolding list_all_iff by blast

lemma has_scheme_good: "has_scheme u \<Longrightarrow> good_scheme (map lower_char (before CHR '':'' u))"
proof -
  assume h: "has_scheme u"
  then have ne: "before CHR '':'' u \<noteq> []" and al: "ascii_isalpha (hd u)"
    and all: "list_all (\<lambda>c. c \<in> set scheme_chars) (before CHR '':'' u)"
    by (auto simp: has_scheme_def)
  have "hd (before CHR '':'' u) = hd u"
    using ne by (cases u) (auto simp: before_def split: if_splits)
  then have "ascii_isalpha (lower_char (hd (before CHR '':'' u)))"
    using al lower_char_isalpha by (auto simp: ascii_isalpha_def)
  moreover have "list_all (\<lambda>c. c \<in> set scheme_chars) (map lower_char (before CHR '':'' u))"
    using all lower_char_scheme_chars by (auto simp: list_all_iff)
  ultimately show ?thesis using ne by (simp add: good_scheme_def hd_map)
qed

text \<open>The result of \<open>urlsplit\<close>, case by case.\<close>

lemma urlsplit_result:
  assumes "urlsplit hok url0 s0 = Inr (sch, nl, p, q, f)"
  shows "\<exists>u2 rest.
     (if has_scheme (url_stripped url0)
      then sch = map lower_char (before CHR '':'' (url_stripped url0)) \<and>
           u2 = after CHR '':'' (url_stripped url0)
      else sch = remove_unsafe (strip c0_control_or_space s0) \<and> u2 = url_stripped url0) \<and>
     (if take 2 u2 = ''//''
      then nl = takeWhile (\<lambda>c. \<not> netloc_delim c) (drop 2 u2) \<and>
           rest = dropWhile (\<lambda>c. \<not> netloc_delim c) (drop 2 u2) \<and> netloc_accepted hok nl
      else nl = [] \<and> rest = u2) \<and>
     split_query_fragment rest = (p, q, f)"
  using assms
  unfolding urlsplit_def url_stripped_def Let_def splitnetloc_def netloc_accepted_def
  by (auto split: if_splits prod.splits)

lemma safe_subset: "set s \<subseteq> set t \<Longrightarrow> safe t \<Longrightarrow> safe s"
  by (auto simp: safe_def)

lemma safe_append [simp]: "safe (s @ t) = (safe s \<and> safe t)"
  by (auto simp: safe_def)

lemma safe_Nil [simp]: "safe []"
  by (simp add: safe_def)

lemma safe_url_stripped: "safe (url_stripped u)"
  by (simp add: safe_def url_stripped_def remove_unsafe_def)

lemma set_url_stripped: "set (url_stripped u) \<subseteq> set u"
  by (auto simp: url_stripped_def remove_unsafe_def lstrip_def dest: set_dropWhileD)

lemma good_scheme_chars:
  assumes "good_scheme s" and "c \<in> set s"
  shows "c \<noteq> CHR ''?''" "c \<noteq> CHR ''#''" "c \<noteq> CHR '':''" "c \<noteq> CHR ''/''"
    "\<not> unsafe_url_byte c" "\<not> c0_control_or_space c"
  using assms scheme_chars_not_special [of c] by (auto simp: good_scheme_def list_all_iff)

lemma good_scheme_safe: "good_scheme s \<Longrightarrow> safe s"
  using good_scheme_chars(5) by (auto simp: safe_def)

lemma strip_Nil [simp]: "strip P [] = []"
  by (simp add: strip_def lstrip_def rstrip_def)

text \<open>What \<open>urlsplit\<close> returns, with the default scheme \<open>''\<close>.\<close>

lemma urlsplit_parts:
  assumes "urlsplit hok url0 [] = Inr (sch, nl, p, q, f)"
  shows "sch = [] \<or> good_scheme sch"
    and "\<forall>c\<in>set nl. \<not> netloc_delim c" and "netloc_accepted hok nl"
    and "CHR ''?'' \<notin> set p" and "CHR ''#'' \<notin> set p"
    and "safe nl" and "safe p" and "safe q" and "safe f"
    and "CHR ''?'' \<notin> set url0 \<Longrightarrow> q = []" and "CHR ''#'' \<notin> set url0 \<Longrightarrow> f = []"
proof -
  from urlsplit_result [OF assms] obtain u2 rest where
    sch: "if has_scheme (url_stripped url0)
      then sch = map lower_char (before CHR '':'' (url_stripped url0)) \<and>
           u2 = after CHR '':'' (url_stripped url0)
      else sch = remove_unsafe (strip c0_control_or_space []) \<and> u2 = url_stripped url0"
    and nl: "if take 2 u2 = ''//''
      then nl = takeWhile (\<lambda>c. \<not> netloc_delim c) (drop 2 u2) \<and>
           rest = dropWhile (\<lambda>c. \<not> netloc_delim c) (drop 2 u2) \<and> netloc_accepted hok nl
      else nl = [] \<and> rest = u2"
    and sqf: "split_query_fragment rest = (p, q, f)"
    by blast
  show "sch = [] \<or> good_scheme sch"
    using sch has_scheme_good [of "url_stripped url0"]
    by (auto simp: remove_unsafe_def split: if_splits)
  have u2: "set u2 \<subseteq> set (url_stripped url0)"
    using sch set_after [of "CHR '':''" "url_stripped url0"] by (auto split: if_splits)
  have nl_sub: "set nl \<subseteq> set u2" and rest_sub: "set rest \<subseteq> set u2"
    using nl by (auto split: if_splits dest: set_takeWhileD set_dropWhileD in_set_dropD)
  show "\<forall>c\<in>set nl. \<not> netloc_delim c"
    using nl by (auto split: if_splits dest: set_takeWhileD)
  show "netloc_accepted hok nl"
    using nl by (auto simp: netloc_accepted_def split: if_splits)
  show "CHR ''?'' \<notin> set p" and "CHR ''#'' \<notin> set p"
    using split_query_fragment_path(1,2) [OF sqf] by auto
  have su2: "safe u2" using u2 safe_url_stripped safe_subset by blast
  show "safe nl" using nl_sub su2 safe_subset by blast
  have sr: "safe rest" using rest_sub su2 safe_subset by blast
  show "safe p" using split_query_fragment_path(3) [OF sqf] sr safe_subset by blast
  show "safe q" using split_query_fragment_path(4) [OF sqf] sr safe_subset by blast
  show "safe f" using split_query_fragment_path(5) [OF sqf] sr safe_subset by blast
  have "set rest \<subseteq> set url0"
    using rest_sub u2 set_url_stripped [of url0] by blast
  then show "CHR ''?'' \<notin> set url0 \<Longrightarrow> q = []" and "CHR ''#'' \<notin> set url0 \<Longrightarrow> f = []"
    using split_query_fragment_path(6,7) [OF sqf] by auto
qed

lemma set_splitparams:
  "set (fst (splitparams p)) \<subseteq> set p" "set (snd (splitparams p)) \<subseteq> set p"
proof -
  define tail where "tail = rev (takeWhile (\<lambda>c. c \<noteq> CHR ''/'') (rev p))"
  have t: "set tail \<subseteq> set p"
    by (auto simp: tail_def dest: set_takeWhileD)
  have "set (take (length p - length tail) p) \<subseteq> set p"
    by (rule set_take_subset)
  then show "set (fst (splitparams p)) \<subseteq> set p" "set (snd (splitparams p)) \<subseteq> set p"
    using t set_before [of "CHR '';''" tail] set_after [of "CHR '';''" tail]
      set_before [of "CHR '';''" p] set_after [of "CHR '';''" p]
    unfolding splitparams_def tail_def [symmetric] Let_def
    by (auto split: if_splits)
qed

lemma urlparse_scheme_result:
  assumes "urlparse_scheme hok url0 s0 = Inr r"
  shows "\<exists>sch nl p q f. urlsplit hok url0 s0 = Inr (sch, nl, p, q, f) \<and>
     scheme r = sch \<and> netloc r = nl \<and> query r = q \<and> fragment r = f \<and>
     (path r, params r) =
       (if sch \<in> set uses_params \<and> CHR '';'' \<in> set p then splitparams p else (p, []))"
  using assms
  by (auto simp: urlparse_scheme_def Let_def split: sum.splits prod.splits if_splits)

text \<open>What \<open>urlparse\<close> returns.\<close>

lemma urlparse_parts:
  assumes "urlparse hok url0 = Inr r"
  shows "scheme r = [] \<or> good_scheme (scheme r)"
    and "\<forall>c\<in>set (netloc r). \<not> netloc_delim c" and "netloc_accepted hok (netloc r)"
    and "CHR ''?'' \<notin> set (path r)" and "CHR ''#'' \<notin> set (path r)"
    and "CHR ''?'' \<notin> set (params r)" and "CHR ''#'' \<notin> set (params r)"
    and "safe (netloc r)" and "safe (path r)" and "safe (params r)"
    and "safe (query r)" and "safe (fragment r)"
    and "CHR ''?'' \<notin> set url0 \<Longrightarrow> query r = []" and "CHR ''#'' \<notin> set url0 \<Longrightarrow> fragment r = []"
proof -
  from urlparse_scheme_result [of hok url0 "[]" r] assms obtain sch nl p q f where
    sp: "urlsplit hok url0 [] = Inr (sch, nl, p, q, f)"
    and f: "scheme r = sch" "netloc r = nl" "query r = q" "fragment r = f"
    and pp0: "(path r, params r) =
      (if sch \<in> set uses_params \<and> CHR '';'' \<in> set p then splitparams p else (p, []))"
    unfolding urlparse_def by blast
  have pp: "set (path r) \<subseteq> set p" "set (params r) \<subseteq> set p"
    using set_splitparams [of p] pp0 by (auto split: if_splits simp: prod_eq_iff)
  note parts = urlsplit_parts [OF sp]
  show "scheme r = [] \<or> good_scheme (scheme r)" using parts(1) f by simp
  show "\<forall>c\<in>set (netloc r). \<not> netloc_delim c" using parts(2) f by simp
  show "netloc_accepted hok (netloc r)" using parts(3) f by simp
  show "CHR ''?'' \<notin> set (path r)" "CHR ''#'' \<notin> set (path r)"
    "CHR ''?'' \<notin> set (params r)" "CHR ''#'' \<notin> set (params r)"
    using parts(4,5) pp by auto
  show "safe (netloc r)" using parts(6) f by simp
  show "safe (path r)" "safe (params r)" using parts(7) pp safe_subset by blast+
  show "safe (query r)" "safe (fragment r)" using parts(8,9) f by simp_all
  show "CHR ''?'' \<notin> set url0 \<Longrightarrow> query r = []" "CHR ''#'' \<notin> set url0 \<Longrightarrow> fragment r = []"
    using parts(10,11) f by simp_all
qed

lemma set_urlunsplit_no_query:
  "set (urlunsplit sch nl u [] []) \<subseteq> set sch \<union> set nl \<union> set u \<union> {CHR ''/'', CHR '':''}"
  by (auto simp: urlunsplit_def Let_def)

lemma clean_url_no_query_fragment:
  assumes "clean_url_of hok link = Inr c"
  shows "CHR ''?'' \<notin> set c \<and> CHR ''#'' \<notin> set c"
proof -
  from assms obtain r where r: "urlparse hok link = Inr r"
    and c: "c = urlunparse (r\<lparr>query := [], fragment := []\<rparr>)"
    by (auto simp: clean_url_of_def split: sum.splits)
  note parts = urlparse_parts [OF r]
  have sch: "CHR ''?'' \<notin> set (scheme r) \<and> CHR ''#'' \<notin> set (scheme r)"
    using parts(1) good_scheme_chars(1,2) [of "scheme r"] by auto
  have nl: "CHR ''?'' \<notin> set (netloc r) \<and> CHR ''#'' \<notin> set (netloc r)"
    using parts(2) by (auto simp: netloc_delim_def)
  have "set c \<subseteq> set (scheme r) \<union> set (netloc r) \<union> set (path r) \<union> set (params r) \<union>
      {CHR ''/'', CHR '':'', CHR '';''}"
    using set_urlunsplit_no_query [of "scheme r" "netloc r" "path r"]
      set_urlunsplit_no_query [of "scheme r" "netloc r" "path r @ '';'' @ params r"]
    by (auto simp: c urlunparse_def)
  then show ?thesis using sch nl parts(4-7) by auto
qed

section \<open>Invariants of the frontier loop\<close>

lemma frontier_requests_append [simp]:
  "frontier_requests (xs @ ys) = frontier_requests xs @ frontier_requests ys"
  by (induction xs rule: frontier_requests.induct) simp_all

lemma crawl_loop_invariant:
  assumes step: "\<And>s. I s \<Longrightarrow> queue s \<noteq> [] \<Longrightarrow>
      I (step_state (crawl_step lib env output_dir max_depth base_domain s))"
    and init: "I st"
  shows "I (final_state (crawl_loop n lib env output_dir max_depth base_domain st))"
  using init
proof (induction n arbitrary: st)
  case 0
  then show ?case by simp
next
  case (Suc n)
  show ?case
  proof (cases "queue st = []")
    case True
    then show ?thesis using Suc.prems by simp
  next
    case False
    have I': "I (step_state (crawl_step lib env output_dir max_depth base_domain st))"
      using step [OF Suc.prems False] .
    show ?thesis
    proof (cases "crawl_step lib env output_dir max_depth base_domain st")
      case (Next st')
      then show ?thesis using False I' Suc.IH [of st'] by simp
    next
      case (Raise e st')
      then show ?thesis using False I' by simp
    qed
  qed
qed

lemma handle_response_visited [simp]:
  "visited (step_state (handle_response lib env output_dir base_domain depth resp st)) = visited st"
  by (simp add: handle_response_def Let_def split: sum.splits bool.splits prod.splits option.splits)

lemma handle_response_call_log [simp]:
  "call_log (step_state (handle_response lib env output_dir base_domain depth resp st)) = call_log st"
  by (simp add: handle_response_def Let_def split: sum.splits bool.splits prod.splits option.splits)

text \<open>What one iteration does to the call log and the visited set.\<close>

lemma crawl_step_log:
  assumes "queue st = (u, k) # rest"
  shows "(call_log (step_state (crawl_step lib env output_dir max_depth base_domain st)) = call_log st \<and>
          visited (step_state (crawl_step lib env output_dir max_depth base_domain st)) = visited st) \<or>
         (call_log (step_state (crawl_step lib env output_dir max_depth base_domain st)) =
            call_log st @ [Frontier u k] \<and>
          visited (step_state (crawl_step lib env output_dir max_depth base_domain st)) =
            insert u (visited st) \<and>
          u \<notin> visited st \<and> (\<forall>d. max_depth = Some d \<longrightarrow> k \<le> d))"
  using assms
  by (auto simp: crawl_step_def Let_def split: sum.splits prod.splits option.splits)

lemma crawl_log_frontier:
  "(\<forall>(u, k)\<in>set (frontier_requests (call_log (final_state
        (crawl n lib env w0 start_url output_dir max_depth0)))).
      \<forall>d. max_depth0 = Some d \<and> 0 \<le> d \<longrightarrow> k \<le> d) \<and>
   distinct (map fst (frontier_requests (call_log (final_state
        (crawl n lib env w0 start_url output_dir max_depth0)))))"
proof -
  define md where "md = (case max_depth0 of None \<Rightarrow> None | Some d \<Rightarrow> if d < 0 then None else Some d)"
  define I where "I = (\<lambda>s :: 'a crawl_state.
      (\<forall>(u, k)\<in>set (frontier_requests (call_log s)). \<forall>d. md = Some d \<longrightarrow> k \<le> d) \<and>
      distinct (map fst (frontier_requests (call_log s))) \<and>
      fst ` set (frontier_requests (call_log s)) \<subseteq> visited s)"
  have step: "I (step_state (crawl_step lib env output_dir md base_domain s))"
    if Is: "I s" and ne: "queue s \<noteq> []" for s base_domain
  proof -
    obtain u k rest where q: "queue s = (u, k) # rest"
      using ne by (cases "queue s") auto
    from crawl_step_log [OF q, of lib env output_dir md base_domain] Is
    show ?thesis unfolding I_def by (elim disjE conjE) (simp, auto)
  qed
  have loop: "I (final_state (crawl_loop n lib env output_dir md base_domain st))"
    if "I st" for st base_domain
    using crawl_loop_invariant [of I lib env output_dir md base_domain st n] step that by blast
  have init: "I ((initial_state w)\<lparr>call_log := [Initial start_url], queue := q\<rparr>)" for w q
    by (simp add: I_def initial_state_def)
  have init': "I ((initial_state w)\<lparr>call_log := [Initial start_url]\<rparr>)" for w
    by (simp add: I_def initial_state_def)
  have init0: "I (initial_state w)" for w
    by (simp add: I_def initial_state_def)
  have "I (final_state (crawl n lib env w0 start_url output_dir max_depth0))"
    unfolding crawl_def md_def [symmetric] Let_def
    by (auto split: prod.splits option.splits sum.splits intro!: loop init init' init0)
  then show ?thesis
    unfolding I_def md_def by (auto split: option.splits if_splits)
qed

lemmas engine_defs =
  crawl_def crawl_step_def handle_response_def save_resource_def resource_path_def
  page_links_def content_type_of_def initial_state_def static_site_def image_at_def
  one_image_site_def html_at_def two_links_def three_pages_def should_download_def is_valid_def clean_url_of_def

section \<open>Each URL is requested at most once by the frontier loop\<close>

text \<open>
  C2, as the specification states it, counts the initial request of line 112 among the
  requests of the run. It does not hold: for a start URL that redirects nowhere the
  response's URL is the start URL, the frontier begins with it, and the loop requests it
  a second time.
\<close>

theorem C2_start_url_requested_twice:
  "map request_url (call_log (final_state
      (crawl 3 (example_lib []) (one_image_site ''https://example.com/'') ()
         ''https://example.com/'' ''out'' None))) =
     [''https://example.com/'', ''https://example.com/'']"
  by code_simp

text \<open>
  C2, amended: the requests of the frontier loop (line 141) of one run are for pairwise
  distinct URLs, at every number of iterations, for every site and every library. The
  initial request, which resolves the redirects of the start URL, stands outside the
  guarantee.
\<close>

theorem C2_frontier_requests_distinct:
  "distinct (map fst (frontier_requests (call_log (final_state
      (crawl n lib env w0 start_url output_dir max_depth0)))))"
  using crawl_log_frontier [of n lib env w0 start_url output_dir max_depth0] by blast

theorem C2_frontier_requests_distinct_witness:
  "distinct (map fst (frontier_requests (call_log (final_state
      (crawl 3 (example_lib []) (one_image_site ''https://example.com/'') ()
         ''https://example.com/'' ''out'' None))))) \<and>
   frontier_requests (call_log (final_state
      (crawl 3 (example_lib []) (one_image_site ''https://example.com/'') ()
         ''https://example.com/'' ''out'' None))) = [(''https://example.com/'', 0)]"
proof
  show "distinct (map fst (frontier_requests (call_log (final_state
      (crawl 3 (example_lib []) (one_image_site ''https://example.com/'') ()
         ''https://example.com/'' ''out'' None)))))"
    using C2_frontier_requests_distinct
      [of 3 "example_lib []" "one_image_site ''https://example.com/''" "()"
          "''https://example.com/''" "''out''" None] .
  show "frontier_requests (call_log (final_state
      (crawl 3 (example_lib []) (one_image_site ''https://example.com/'') ()
         ''https://example.com/'' ''out'' None))) = [(''https://example.com/'', 0)]"
    by code_simp
qed

section \<open>The depth bound\<close>

lemma crawl_step_too_deep:
  assumes "queue st = (u, k) # rest" and "d < k"
  shows "crawl_step lib env output_dir (Some d) base_domain st = Next (st\<lparr>queue := rest\<rparr>)"
  using assms by (simp add: crawl_step_def)

text \<open>
  C5: with a depth bound \<open>d\<close> (not negative: a negative bound is read as no bound, line 104),
  every request of the frontier loop is for an entry whose depth is at most \<open>d\<close>, at every
  number of iterations; and an iteration that takes an entry deeper than the bound from the
  frontier drops it and does nothing else: no request, no change of the visited set, of the
  saved resources or of the rest of the frontier.
\<close>

theorem C5_depth_bound:
  assumes "0 \<le> d"
  shows "(\<forall>(u, k) \<in> set (frontier_requests (call_log (final_state
            (crawl n lib env w0 start_url output_dir (Some d))))). k \<le> d) \<and>
         (\<forall>st u k rest. queue st = (u, k) # rest \<and> d < k \<longrightarrow>
            crawl_step lib env output_dir (Some d) base_domain st = Next (st\<lparr>queue := rest\<rparr>))"
proof
  show "\<forall>(u, k) \<in> set (frontier_requests (call_log (final_state
            (crawl n lib env w0 start_url output_dir (Some d))))). k \<le> d"
    using crawl_log_frontier [of n lib env w0 start_url output_dir "Some d"] assms by auto
  show "\<forall>st u k rest. queue st = (u, k) # rest \<and> d < k \<longrightarrow>
            crawl_step lib env output_dir (Some d) base_domain st = Next (st\<lparr>queue := rest\<rparr>)"
    using crawl_step_too_deep by blast
qed

theorem C5_depth_bound_witness:
  "list_all (\<lambda>(u, k). k \<le> 1) (frontier_requests (call_log (final_state
       (crawl 6 (example_lib two_links) (three_pages [] (\<lambda>p. False)) ()
          ''https://example.com/'' ''out'' (Some 1))))) \<and>
   crawl 6 (example_lib two_links) (three_pages [] (\<lambda>p. False)) ()
          ''https://example.com/'' ''out'' (Some 1) =
     Completed \<lparr>world = (), queue = [],
       visited = {''https://example.com/'', ''https://example.com/a'', ''https://example.com/b''},
       call_log = [Initial ''https://example.com/'', Frontier ''https://example.com/'' 0,
                   Frontier ''https://example.com/a'' 1, Frontier ''https://example.com/b'' 1],
       saved = [(''https://example.com/'', ''out/example.com/index.html''),
                (''https://example.com/a'', ''out/example.com/a''),
                (''https://example.com/b'', ''out/example.com/b'')]\<rparr>"
proof (intro conjI)
  show "list_all (\<lambda>(u, k). k \<le> 1) (frontier_requests (call_log (final_state
       (crawl 6 (example_lib two_links) (three_pages [] (\<lambda>p. False)) ()
          ''https://example.com/'' ''out'' (Some 1)))))"
    using C5_depth_bound [of 1 6 "example_lib two_links" "three_pages [] (\<lambda>p. False)" "()"
        "''https://example.com/''" "''out''"] by (simp add: list_all_iff)
  show "crawl 6 (example_lib two_links) (three_pages [] (\<lambda>p. False)) ()
          ''https://example.com/'' ''out'' (Some 1) =
     Completed \<lparr>world = (), queue = [],
       visited = {''https://example.com/'', ''https://example.com/a'', ''https://example.com/b''},
       call_log = [Initial ''https://example.com/'', Frontier ''https://example.com/'' 0,
                   Frontier ''https://example.com/a'' 1, Frontier ''https://example.com/b'' 1],
       saved = [(''https://example.com/'', ''out/example.com/index.html''),
                (''https://example.com/a'', ''out/example.com/a''),
                (''https://example.com/b'', ''out/example.com/b'')]\<rparr>"
    by code_simp
qed

section \<open>The Domain Scope Filter\<close>

lemma safe_scheme_separator: "safe ''://''"
  by (simp add: safe_def unsafe_url_byte_def)

text \<open>What \<open>urlsplit\<close> returns for a URL written as scheme, \<open>://\<close>, netloc and the rest.\<close>

lemma urlsplit_composed:
  assumes gs: "good_scheme sch" and nd: "\<forall>c\<in>set nl. \<not> netloc_delim c"
    and snl: "safe nl" and srest: "safe rest"
    and r: "rest = [] \<or> netloc_delim (hd rest)"
  shows "urlsplit hok (sch @ ''://'' @ nl @ rest) s0 =
     (if netloc_accepted hok nl
      then (case split_query_fragment rest of (p, q, f) \<Rightarrow> Inr (map lower_char sch, nl, p, q, f))
      else Inl ValueError)"
proof -
  define url where "url = sch @ ''://'' @ nl @ rest"
  from gs have ne: "sch \<noteq> []" and al: "ascii_isalpha (hd sch)"
    and sc: "list_all (\<lambda>c. c \<in> set scheme_chars) sch"
    by (simp_all add: good_scheme_def)
  have hd_in: "hd sch \<in> set sch" using ne by simp
  have hd_url: "hd url = hd sch" using ne by (simp add: url_def)
  have url_ne: "url \<noteq> []" by (simp add: url_def)
  have "\<not> c0_control_or_space (hd url)"
    using good_scheme_chars(6) [OF gs hd_in] hd_url by simp
  then have 1: "lstrip c0_control_or_space url = url"
    using url_ne by (cases url) (simp_all add: lstrip_def)
  have "safe url"
    unfolding url_def safe_append
    using good_scheme_safe [OF gs] snl srest safe_scheme_separator by blast
  then have 2: "remove_unsafe url = url"
    by (simp add: remove_unsafe_def safe_def)
  have nocolon: "\<And>c. c \<in> set sch \<Longrightarrow> c \<noteq> CHR '':''"
    using good_scheme_chars(3) [OF gs] by blast
  have b: "before CHR '':'' url = sch"
    using nocolon by (simp add: before_def url_def takeWhile_append2)
  have a: "after CHR '':'' url = ''//'' @ nl @ rest"
    using nocolon by (simp add: after_def url_def dropWhile_append2)
  have hs: "has_scheme url"
    using ne al sc hd_url by (simp add: has_scheme_def b) (simp add: url_def)
  have tw: "takeWhile (\<lambda>c. \<not> netloc_delim c) (nl @ rest) = nl"
    using nd r by (cases rest) (simp_all add: takeWhile_append2)
  have dw: "dropWhile (\<lambda>c. \<not> netloc_delim c) (nl @ rest) = rest"
    using nd r by (cases rest) (simp_all add: dropWhile_append2)
  have "urlsplit hok url s0 =
     (if netloc_accepted hok nl
      then (case split_query_fragment rest of (p, q, f) \<Rightarrow> Inr (map lower_char sch, nl, p, q, f))
      else Inl ValueError)"
    by (simp add: urlsplit_def Let_def 1 2 hs b a splitnetloc_def tw dw netloc_accepted_def
        split: prod.splits)
  then show ?thesis by (simp only: url_def)
qed

lemma urlparse_composed:
  assumes "good_scheme sch" and "\<forall>c\<in>set nl. \<not> netloc_delim c"
    and "safe nl" and "safe rest" and "rest = [] \<or> netloc_delim (hd rest)"
  shows "netloc_accepted hok nl \<Longrightarrow>
           \<exists>r. urlparse hok (sch @ ''://'' @ nl @ rest) = Inr r \<and>
                scheme r = map lower_char sch \<and> netloc r = nl"
    and "\<not> netloc_accepted hok nl \<Longrightarrow> urlparse hok (sch @ ''://'' @ nl @ rest) = Inl ValueError"
  using urlsplit_composed [OF assms, of hok "[]"]
  by (auto simp: urlparse_def urlparse_scheme_def Let_def split: prod.splits)

text \<open>
  C3, as stated, fails in both directions. For the URL \<open>ftp://example.com/x\<close> and the site
  domain \<open>example.com\<close>, \<open>should_download\<close> returns True, although the scheme is neither
  http nor https. For \<open>https://user@example.com/a\<close> it returns False, although the scheme is
  https and the host is the site domain.
\<close>

theorem C3_should_download_ignores_scheme:
  "should_download no_bracketed_host ''ftp://example.com/x'' ''example.com'' = Inr True \<and>
   in_scope_spec no_bracketed_host ''ftp://example.com/x'' ''example.com'' = Inr False \<and>
   should_download no_bracketed_host ''https://user@example.com/a'' ''example.com'' = Inr False \<and>
   in_scope_spec no_bracketed_host ''https://user@example.com/a'' ''example.com'' = Inr True"
  by code_simp

text \<open>
  C3, amended: for every URL written as a scheme, \<open>://\<close>, a netloc, and then nothing or a
  path, query or fragment, \<open>should_download\<close> returns True exactly when the netloc, that is
  the whole text between \<open>//\<close> and the next \<open>/\<close>, \<open>?\<close> or \<open>#\<close> (the host with the userinfo
  and the port when they are present), equals the site domain, whatever the scheme; it
  raises ValueError when the brackets of the netloc are unbalanced or hold an invalid
  address. The scheme is tested by \<open>is_valid\<close> alone: it returns True exactly when the
  scheme, in lower case, is http or https.
\<close>

theorem C3_should_download_netloc_only:
  assumes "good_scheme sch" and "\<forall>c\<in>set nl. \<not> netloc_delim c"
    and "safe nl" and "safe rest" and "rest = [] \<or> netloc_delim (hd rest)"
  shows "should_download hok (sch @ ''://'' @ nl @ rest) site_domain =
           (if netloc_accepted hok nl then Inr (nl = site_domain) else Inl ValueError) \<and>
         is_valid hok (sch @ ''://'' @ nl @ rest) =
           (if netloc_accepted hok nl then Inr (map lower_char sch \<in> set [''http'', ''https''])
            else Inl ValueError)"
proof (cases "netloc_accepted hok nl")
  case True
  from urlparse_composed(1) [OF assms True] obtain r where
    "urlparse hok (sch @ ''://'' @ nl @ rest) = Inr r" "scheme r = map lower_char sch" "netloc r = nl"
    by blast
  then show ?thesis using True by (simp add: should_download_def is_valid_def)
next
  case False
  from urlparse_composed(2) [OF assms False]
  show ?thesis using False by (simp add: should_download_def is_valid_def)
qed

theorem C3_should_download_netloc_only_witness:
  "should_download no_bracketed_host ''FTP://user@example.com:8080/a?x=1'' ''user@example.com:8080'' = Inr True \<and>
   is_valid no_bracketed_host ''FTP://user@example.com:8080/a?x=1'' = Inr False"
proof -
  have 1: "good_scheme ''FTP''" by code_simp
  have 2: "\<forall>c\<in>set ''user@example.com:8080''. \<not> netloc_delim c" by (simp add: netloc_delim_def)
  have 3: "safe ''user@example.com:8080''" by (simp add: safe_def unsafe_url_byte_def)
  have 4: "safe ''/a?x=1''" by (simp add: safe_def unsafe_url_byte_def)
  have 5: "''/a?x=1'' = [] \<or> netloc_delim (hd ''/a?x=1'')" by (simp add: netloc_delim_def)
  have 6: "netloc_accepted no_bracketed_host ''user@example.com:8080''"
    by (simp add: netloc_accepted_def)
  have 7: "map lower_char ''FTP'' = ''ftp''" by code_simp
  show ?thesis
    using C3_should_download_netloc_only [OF 1 2 3 4 5, of no_bracketed_host "''user@example.com:8080''"]
    by (simp add: 6 7)
qed

section \<open>The candidates of srcset\<close>












section \<open>The URLs of the frontier\<close>

lemma clean_url_normalized:
  assumes "clean_url_of hok link = Inr c" and "is_valid hok c = Inr True"
  shows "no_query_no_fragment hok c"
proof -
  from assms(2) obtain r where r: "urlparse hok c = Inr r"
    by (auto simp: is_valid_def split: sum.splits)
  have "CHR ''?'' \<notin> set c" "CHR ''#'' \<notin> set c"
    using clean_url_no_query_fragment [OF assms(1)] by simp_all
  then have "query r = []" "fragment r = []"
    using urlparse_parts(13,14) [OF r] by simp_all
  then show ?thesis using r by (simp add: no_query_no_fragment_def)
qed

lemma enqueue_links_queue:
  assumes "enqueue_links hok base_domain vis depth q links = (res, q')"
    and "(u, k) \<in> set q'"
  shows "(u, k) \<in> set q \<or> (k = depth + 1 \<and> no_query_no_fragment hok u)"
  using assms
proof (induction links arbitrary: q)
  case Nil
  then show ?case by simp
next
  case (Cons link links)
  show ?case
  proof (cases "clean_url_of hok link")
    case (Inl e)
    then show ?thesis using Cons.prems by simp
  next
    case (Inr c)
    note c = this
    show ?thesis
    proof (cases "is_valid hok c")
      case (Inl e)
      then show ?thesis using Cons.prems c by simp
    next
      case (Inr b)
      note b = this
      show ?thesis
      proof (cases b)
        case False
        then show ?thesis using Cons.prems c b Cons.IH [of q] by simp
      next
        case True
        have norm: "no_query_no_fragment hok c"
          using clean_url_normalized [OF c] b True by simp
        show ?thesis
        proof (cases "should_download hok c base_domain")
          case (Inl e)
          then show ?thesis using Cons.prems c b True by simp
        next
          case (Inr b2)
          show ?thesis
          proof (cases "b2 \<and> c \<notin> vis")
            case False
            then have "enqueue_links hok base_domain vis depth q links = (res, q')"
              using Cons.prems(1) c b True Inr by (auto split: if_splits bool.splits)
            then show ?thesis using Cons.IH [of q] Cons.prems(2) by simp
          next
            case T: True
            then have "enqueue_links hok base_domain vis depth (q @ [(c, depth + 1)]) links = (res, q')"
              using Cons.prems(1) c b True Inr by simp
            from Cons.IH [OF this Cons.prems(2)] show ?thesis using norm by auto
          qed
        qed
      qed
    qed
  qed
qed

lemma handle_response_queue:
  assumes "(u, k) \<in> set (queue (step_state (handle_response lib env output_dir base_domain depth resp st)))"
  shows "(u, k) \<in> set (queue st) \<or> (k = depth + 1 \<and> no_query_no_fragment (host_ok lib) u)"
proof -
  have "\<And>res q'. enqueue_links (host_ok lib) base_domain vis depth (queue st) links = (res, q') \<Longrightarrow>
          (u, k) \<in> set q' \<Longrightarrow>
          (u, k) \<in> set (queue st) \<or> (k = depth + 1 \<and> no_query_no_fragment (host_ok lib) u)"
    for vis links
    using enqueue_links_queue by blast
  then show ?thesis
    using assms
    by (auto simp: handle_response_def Let_def split: sum.splits bool.splits prod.splits option.splits)
qed

lemma crawl_step_queue:
  assumes q: "queue st = (v, d) # rest"
    and "(u, k) \<in> set (queue (step_state (crawl_step lib env output_dir max_depth base_domain st)))"
  shows "(u, k) \<in> set rest \<or> (k = d + 1 \<and> no_query_no_fragment (host_ok lib) u)"
  using assms
  by (auto simp: crawl_step_def Let_def split: sum.splits prod.splits option.splits if_splits
           dest!: handle_response_queue)



lemma crawl_entries_normalized:
  "(\<forall>e \<in> set (queue (final_state (crawl n lib env w0 start_url output_dir max_depth0))) \<union>
          set (frontier_requests (call_log (final_state
                (crawl n lib env w0 start_url output_dir max_depth0)))).
      entry_ok (host_ok lib) e)"
proof -
  define I :: "'a crawl_state \<Rightarrow> bool" where
    "I s = (\<forall>e \<in> set (queue s) \<union> set (frontier_requests (call_log s)). entry_ok (host_ok lib) e)" for s
  have step: "I (step_state (crawl_step lib env output_dir md base_domain s))"
    if Is: "I s" and ne: "queue s \<noteq> []" for s md base_domain
  proof -
    from ne obtain v d rest where q: "queue s = (v, d) # rest"
      by (cases "queue s") auto
    have hd_ok: "entry_ok (host_ok lib) (v, d)" and rest_ok: "\<forall>e\<in>set rest. entry_ok (host_ok lib) e"
      and log_ok: "\<forall>e\<in>set (frontier_requests (call_log s)). entry_ok (host_ok lib) e"
      using Is q by (auto simp: I_def)
    have qs: "entry_ok (host_ok lib) e"
      if "e \<in> set (queue (step_state (crawl_step lib env output_dir md base_domain s)))" for e
    proof -
      obtain u k where e: "e = (u, k)" by (cases e)
      from crawl_step_queue [OF q, of u k lib env output_dir md base_domain] that e
      have "(u, k) \<in> set rest \<or> (k = d + 1 \<and> no_query_no_fragment (host_ok lib) u)" by simp
      then show ?thesis using rest_ok hd_ok e by (auto simp: entry_ok_def)
    qed
    have ls: "entry_ok (host_ok lib) e"
      if "e \<in> set (frontier_requests (call_log (step_state (crawl_step lib env output_dir md base_domain s))))" for e
      using crawl_step_log [OF q, of lib env output_dir md base_domain] that log_ok hd_ok by auto
    show ?thesis unfolding I_def using qs ls by blast
  qed
  have loop: "I (final_state (crawl_loop n lib env output_dir md base_domain st))"
    if "I st" for st base_domain md
    using crawl_loop_invariant [of I lib env output_dir md base_domain st n] step that by blast
  have init: "I ((initial_state w)\<lparr>call_log := [Initial start_url], queue := [(b, 0)]\<rparr>)" for w b
    by (simp add: I_def initial_state_def entry_ok_def)
  have init': "I ((initial_state w)\<lparr>call_log := [Initial start_url]\<rparr>)" for w
    by (simp add: I_def initial_state_def)
  have init0: "I (initial_state w)" for w
    by (simp add: I_def initial_state_def)
  have "I (final_state (crawl n lib env w0 start_url output_dir max_depth0))"
    unfolding crawl_def Let_def
    by (auto split: prod.splits option.splits sum.splits intro!: loop init init' init0)
  then show ?thesis unfolding I_def .
qed

section \<open>A resource that cannot be saved\<close>

text \<open>
  A request that fails is skipped and the crawl goes on (the handler of line 146): with the
  page \<open>/a\<close> missing, the page \<open>/b\<close> is still fetched and saved.
\<close>

lemma fetch_failure_is_skipped:
  "crawl 6 (example_lib two_links) (three_pages [''https://example.com/a''] (\<lambda>p. False)) ()
      ''https://example.com/'' ''out'' None =
     Completed \<lparr>world = (), queue = [],
       visited = {''https://example.com/'', ''https://example.com/a'', ''https://example.com/b''},
       call_log = [Initial ''https://example.com/'', Frontier ''https://example.com/'' 0,
                   Frontier ''https://example.com/a'' 1, Frontier ''https://example.com/b'' 1],
       saved = [(''https://example.com/'', ''out/example.com/index.html''),
                (''https://example.com/b'', ''out/example.com/b'')]\<rparr>"
  by code_simp

text \<open>
  C1 fails on the code. A file that cannot be written ends the run at once: with
  \<open>out/example.com/a\<close> unwritable the run is \<open>Critical\<close> with \<open>/b\<close> still in the
  frontier, never requested, and no link of \<open>/a\<close> extracted.
\<close>

theorem C1_save_failure_run:
  "crawl 6 (example_lib two_links) (three_pages [] (\<lambda>p. p = ''out/example.com/a'')) ()
      ''https://example.com/'' ''out'' None =
     Critical OSError \<lparr>world = (), queue = [(''https://example.com/b'', 1)],
       visited = {''https://example.com/'', ''https://example.com/a''},
       call_log = [Initial ''https://example.com/'', Frontier ''https://example.com/'' 0,
                   Frontier ''https://example.com/a'' 1],
       saved = [(''https://example.com/'', ''out/example.com/index.html'')]\<rparr>"
  by code_simp

text \<open>
  C1 asks that a failure to save a resource be skipped like a failed request. The code does
  not do that: \<open>save_resource\<close> is called outside any handler of the loop (line 155), so when
  it raises for the response of a frontier entry, the exception reaches the handler of
  line 186 and the run ends there with exit code 1: no link of the page is extracted and the
  rest of the frontier is never processed.
\<close>

theorem C1_save_failure_ends_crawl:
  assumes "queue st = (u, k) # rest"
    and "u \<notin> visited st"
    and "\<forall>d. max_depth = Some d \<longrightarrow> k \<le> d"
    and "http_get env (world st) u = (Inr resp, w)"
    and "\<not> (400 \<le> resp_status_code resp \<and> resp_status_code resp < 600)"
    and "should_download (host_ok lib) (resp_url resp) base_domain = Inr True"
    and "save_resource (host_ok lib) env w resp output_dir base_domain (resp_url resp) = (Inl e, w')"
  shows "crawl_loop (Suc n) lib env output_dir max_depth base_domain st =
         Critical e (st\<lparr>queue := rest, visited := insert u (visited st), world := w',
                        call_log := call_log st @ [Frontier u k]\<rparr>)"
  using assms
  by (cases max_depth) (auto simp: crawl_step_def handle_response_def Let_def)

theorem C1_save_failure_ends_crawl_witness:
  "crawl_loop (Suc 0) (example_lib two_links) (three_pages [] (\<lambda>p. p = ''out/example.com/a''))
      ''out'' None ''example.com''
      \<lparr>world = (), queue = [(''https://example.com/a'', 1), (''https://example.com/b'', 1)],
       visited = {''https://example.com/''},
       call_log = [Initial ''https://example.com/'', Frontier ''https://example.com/'' 0],
       saved = [(''https://example.com/'', ''out/example.com/index.html'')]\<rparr> =
   Critical OSError
      \<lparr>world = (), queue = [(''https://example.com/b'', 1)],
       visited = {''https://example.com/a'', ''https://example.com/''},
       call_log = [Initial ''https://example.com/'', Frontier ''https://example.com/'' 0,
                   Frontier ''https://example.com/a'' 1],
       saved = [(''https://example.com/'', ''out/example.com/index.html'')]\<rparr>"
proof -
  define st :: "unit crawl_state" where
    "st = \<lparr>world = (), queue = [(''https://example.com/a'', 1), (''https://example.com/b'', 1)],
       visited = {''https://example.com/''},
       call_log = [Initial ''https://example.com/'', Frontier ''https://example.com/'' 0],
       saved = [(''https://example.com/'', ''out/example.com/index.html'')]\<rparr>"
  define env where "env = three_pages [] (\<lambda>p. p = ''out/example.com/a'')"
  have 1: "queue st = (''https://example.com/a'', 1) # [(''https://example.com/b'', 1)]"
    by (simp add: st_def)
  have 2: "''https://example.com/a'' \<notin> visited st" by (simp add: st_def)
  have 3: "\<forall>d. (None :: int option) = Some d \<longrightarrow> 1 \<le> d" by simp
  have 4: "http_get env (world st) ''https://example.com/a'' = (Inr (html_at ''https://example.com/a''), ())"
    by (simp add: env_def three_pages_def static_site_def)
  have 5: "\<not> (400 \<le> resp_status_code (html_at ''https://example.com/a'') \<and>
               resp_status_code (html_at ''https://example.com/a'') < 600)"
    by (simp add: html_at_def)
  have 6: "should_download (host_ok (example_lib two_links)) (resp_url (html_at ''https://example.com/a''))
             ''example.com'' = Inr True"
    by code_simp
  have 7: "save_resource (host_ok (example_lib two_links)) env () (html_at ''https://example.com/a'') ''out''
             ''example.com'' (resp_url (html_at ''https://example.com/a'')) = (Inl OSError, ())"
    unfolding env_def by code_simp
  show ?thesis
    using C1_save_failure_ends_crawl [OF 1 2 3 4 5 6 7, of 0]
    by (simp add: st_def env_def insert_commute)
qed

section \<open>The URLs that the link-processing step enqueues\<close>

text \<open>
  C10: in every run, at every number of iterations, every entry of the frontier and every
  request of the frontier loop has a depth that is not negative, and from depth 1 on its URL
  parses with an empty query and an empty fragment. The entry of depth 0 is the final URL of
  the initial response as it is: for the start URL \<open>https://example.com/?q=1\<close> the loop
  requests and saves that URL, query included.
\<close>

theorem C10_enqueued_links_normalized:
  "(\<forall>(u, k) \<in> set (queue (final_state (crawl n lib env w0 start_url output_dir max_depth0))) \<union>
          set (frontier_requests (call_log (final_state
                (crawl n lib env w0 start_url output_dir max_depth0)))).
      0 \<le> k \<and> (1 \<le> k \<longrightarrow> no_query_no_fragment (host_ok lib) u)) \<and>
   crawl 3 (example_lib []) (one_image_site ''https://example.com/?q=1'') ()
         ''https://example.com/?q=1'' ''out'' None =
     Completed \<lparr>world = (), queue = [], visited = {''https://example.com/?q=1''},
       call_log = [Initial ''https://example.com/?q=1'', Frontier ''https://example.com/?q=1'' 0],
       saved = [(''https://example.com/?q=1'', ''out/example.com/index.html'')]\<rparr> \<and>
   \<not> no_query_no_fragment no_bracketed_host ''https://example.com/?q=1''"
proof (intro conjI)
  show "\<forall>(u, k) \<in> set (queue (final_state (crawl n lib env w0 start_url output_dir max_depth0))) \<union>
          set (frontier_requests (call_log (final_state
                (crawl n lib env w0 start_url output_dir max_depth0)))).
      0 \<le> k \<and> (1 \<le> k \<longrightarrow> no_query_no_fragment (host_ok lib) u)"
    using crawl_entries_normalized [of n lib env w0 start_url output_dir max_depth0]
    by (simp add: entry_ok_def case_prod_beta)
  show "crawl 3 (example_lib []) (one_image_site ''https://example.com/?q=1'') ()
         ''https://example.com/?q=1'' ''out'' None =
     Completed \<lparr>world = (), queue = [], visited = {''https://example.com/?q=1''},
       call_log = [Initial ''https://example.com/?q=1'', Frontier ''https://example.com/?q=1'' 0],
       saved = [(''https://example.com/?q=1'', ''out/example.com/index.html'')]\<rparr>"
    by code_simp
  show "\<not> no_query_no_fragment no_bracketed_host ''https://example.com/?q=1''"
    by code_simp
qed

theorem C10_enqueued_links_normalized_witness:
  "list_all (no_query_no_fragment no_bracketed_host)
     (map fst (filter (\<lambda>(u, k). 1 \<le> k) (frontier_requests (call_log (final_state
        (crawl 6 (example_lib two_links) (three_pages [] (\<lambda>p. False)) ()
           ''https://example.com/'' ''out'' None)))))) \<and>
   map fst (filter (\<lambda>(u, k). 1 \<le> k) (frontier_requests (call_log (final_state
        (crawl 6 (example_lib two_links) (three_pages [] (\<lambda>p. False)) ()
           ''https://example.com/'' ''out'' None))))) =
     [''https://example.com/a'', ''https://example.com/b'']"
proof
  have "host_ok (example_lib two_links) = no_bracketed_host"
    by (simp add: example_lib_def)
  then show "list_all (no_query_no_fragment no_bracketed_host)
     (map fst (filter (\<lambda>(u, k). 1 \<le> k) (frontier_requests (call_log (final_state
        (crawl 6 (example_lib two_links) (three_pages [] (\<lambda>p. False)) ()
           ''https://example.com/'' ''out'' None))))))"
    using C10_enqueued_links_normalized [of 6 "example_lib two_links" "three_pages [] (\<lambda>p. False)" "()"
        "''https://example.com/''" "''out''" None]
    by (auto simp: list_all_iff)
  show "map fst (filter (\<lambda>(u, k). 1 \<le> k) (frontier_requests (call_log (final_state
        (crawl 6 (example_lib two_links) (three_pages [] (\<lambda>p. False)) ()
           ''https://example.com/'' ''out'' None))))) =
     [''https://example.com/a'', ''https://example.com/b'']"
    by code_simp
qed

section \<open>The path of a saved resource\<close>




















end
